theory Spec2Isabelle
  imports Complex_Main "HOL-Library.AList" "HOL-Library.List_Lexorder" "HOL-Library.Char_ord"
begin

section \<open>Python strings and regular-expression scanning\<close>

text \<open>
  A \<^typ>\<open>string\<close> is a list of characters; a character of the model stands for a
  Python code point below 256. \<open>isspace\<close> is \<open>str.isspace\<close> (which is also what the
  pattern \<open>\s\<close> matches) and \<open>isword\<close> is what the pattern \<open>\w\<close> matches, both on
  that range.
\<close>

definition isspace :: "char \<Rightarrow> bool" where
  "isspace c = (c \<in> set [CHR 0x09, CHR 0x0A, CHR 0x0B, CHR 0x0C, CHR 0x0D,
                          CHR 0x1C, CHR 0x1D, CHR 0x1E, CHR 0x1F, CHR 0x20,
                          CHR 0x85, CHR 0xA0])"

definition isword :: "char \<Rightarrow> bool" where
  "isword c = (let n = (of_char c :: nat) in
       (48 \<le> n \<and> n \<le> 57) \<or> (65 \<le> n \<and> n \<le> 90) \<or> n = 95 \<or> (97 \<le> n \<and> n \<le> 122)
     \<or> n = 170 \<or> n = 178 \<or> n = 179 \<or> n = 181 \<or> n = 185 \<or> n = 186
     \<or> (188 \<le> n \<and> n \<le> 190) \<or> (192 \<le> n \<and> n \<le> 214)
     \<or> (216 \<le> n \<and> n \<le> 246) \<or> (248 \<le> n \<and> n \<le> 255))"

definition lstrip :: "string \<Rightarrow> string" where
  "lstrip s = dropWhile isspace s"

definition rstrip :: "string \<Rightarrow> string" where
  "rstrip s = rev (dropWhile isspace (rev s))"

definition strip :: "string \<Rightarrow> string" where
  "strip s = lstrip (rstrip s)"

definition startswith :: "string \<Rightarrow> string \<Rightarrow> bool" where
  "startswith p s = (take (length p) s = p)"

text \<open>\<open>s.split(c)\<close> for a one-character separator, and \<open>c.join(ls)\<close>.\<close>

fun split_on :: "char \<Rightarrow> string \<Rightarrow> string list" where
  "split_on c [] = [[]]"
| "split_on c (x # xs) =
     (if x = c then [] # split_on c xs
      else (case split_on c xs of [] \<Rightarrow> [[x]] | l # ls \<Rightarrow> (x # l) # ls))"

fun join_with :: "char \<Rightarrow> string list \<Rightarrow> string" where
  "join_with c [] = []"
| "join_with c [l] = l"
| "join_with c (l # ls) = l @ c # join_with c ls"

text \<open>\<open>s.rfind(c)\<close>: the index of the last occurrence, \<open>None\<close> for Python's \<open>-1\<close>.\<close>

definition rfind :: "char \<Rightarrow> string \<Rightarrow> nat option" where
  "rfind c s = (if c \<in> set s
                then Some (length s - Suc (length (takeWhile (\<lambda>x. x \<noteq> c) (rev s))))
                else None)"

text \<open>
  The scan that \<open>finditer\<close> and \<open>sub\<close> share: at each position the pattern is tried;
  a match is consumed whole and the scan goes on behind it, otherwise one character is
  passed over. A matcher gets the text from the current position on and returns the
  captured groups with the text behind the match. None of the patterns of the program
  matches the empty string, which is what the length test records.
\<close>

datatype 'g token = Lit char | Hit 'g

function re_scan :: "(string \<Rightarrow> ('g \<times> string) option) \<Rightarrow> string \<Rightarrow> 'g token list" where
  "re_scan m [] = []"
| "re_scan m (c # cs) =
     (case m (c # cs) of
        None \<Rightarrow> Lit c # re_scan m cs
      | Some (g, rest) \<Rightarrow>
          if length rest < Suc (length cs) then Hit g # re_scan m rest
          else Lit c # re_scan m cs)"
  by pat_completeness auto
termination
  by (relation "measure (\<lambda>(m, s). length s)") auto

text \<open>The same scan for a pattern with a look-behind: the matcher also gets the
  character before the current position (\<open>None\<close> at the start of the text).\<close>

function re_scan_lb ::
  "(char option \<Rightarrow> string \<Rightarrow> ('g \<times> string) option) \<Rightarrow> char option \<Rightarrow> string \<Rightarrow> 'g token list"
where
  "re_scan_lb m prev [] = []"
| "re_scan_lb m prev (c # cs) =
     (case m prev (c # cs) of
        None \<Rightarrow> Lit c # re_scan_lb m (Some c) cs
      | Some (g, rest) \<Rightarrow>
          if length rest < Suc (length cs)
          then Hit g # re_scan_lb m (Some (last (take (Suc (length cs) - length rest) (c # cs)))) rest
          else Lit c # re_scan_lb m (Some c) cs)"
  by pat_completeness auto
termination
  by (relation "measure (\<lambda>(m, p, s). length s)") auto

definition finditer :: "'g token list \<Rightarrow> 'g list" where
  "finditer ts = concat (map (\<lambda>t. case t of Lit c \<Rightarrow> [] | Hit g \<Rightarrow> [g]) ts)"

definition sub_with :: "('g \<Rightarrow> string) \<Rightarrow> 'g token list \<Rightarrow> string" where
  "sub_with repl ts = concat (map (\<lambda>t. case t of Lit c \<Rightarrow> [c] | Hit g \<Rightarrow> repl g) ts)"

text \<open>
  \<open>(.*?)CLOSE\<close>: the shortest run of admissible characters after which \<open>CLOSE\<close>
  follows; the result is the run and the text behind \<open>CLOSE\<close>.
\<close>

fun lazy_until :: "(char \<Rightarrow> bool) \<Rightarrow> string \<Rightarrow> string \<Rightarrow> (string \<times> string) option" where
  "lazy_until ok cl [] = (if cl = [] then Some ([], []) else None)"
| "lazy_until ok cl (c # cs) =
     (if startswith cl (c # cs) then Some ([], drop (length cl) (c # cs))
      else if ok c then map_option (\<lambda>(x, r). (c # x, r)) (lazy_until ok cl cs)
      else None)"

text \<open>\<open>(.+?)CLOSE\<close>: as before, with at least one character in the run.\<close>

fun lazy_plus_until :: "(char \<Rightarrow> bool) \<Rightarrow> string \<Rightarrow> string \<Rightarrow> (string \<times> string) option" where
  "lazy_plus_until ok cl [] = None"
| "lazy_plus_until ok cl (c # cs) =
     (if ok c then map_option (\<lambda>(x, r). (c # x, r)) (lazy_until ok cl cs) else None)"

definition dot :: "char \<Rightarrow> bool" where
  "dot c = (c \<noteq> CHR 0x0A)"

definition dotall :: "char \<Rightarrow> bool" where
  "dotall c = True"

section \<open>The streaming content filter (gateway/contentfilters.py)\<close>

text \<open>\<open>_HORIZONTAL_RULE = ^(\s*)([-*_])\2{2,}\s*$\<close>, used with \<open>match\<close>.\<close>

definition HORIZONTAL_RULE :: "string \<Rightarrow> bool" where
  "HORIZONTAL_RULE line =
     (case dropWhile isspace line of
        [] \<Rightarrow> False
      | c # cs \<Rightarrow>
          c \<in> set ''-*_''
          \<and> 2 \<le> length (takeWhile (\<lambda>x. x = c) cs)
          \<and> list_all isspace (dropWhile (\<lambda>x. x = c) cs))"

text \<open>\<open>_BOLD = \*\*(.+?)\*\*\<close> and \<open>_BOLD_UNDER = __(.+?)__\<close>.\<close>

definition BOLD :: "string \<Rightarrow> string \<Rightarrow> (string \<times> string) option" where
  "BOLD d s = (if startswith d s then lazy_plus_until dot d (drop (length d) s) else None)"

text \<open>
  \<open>_ITALIC = (?<!\w)\*(?!\s)(.+?)(?<!\s)\*(?!\w)\<close> and the same with \<open>_\<close>.
  \<open>ITALIC_close d prev s\<close> looks for the closing marker \<open>d\<close> from a position whose
  previous character is \<open>prev\<close>.
\<close>

fun ITALIC_close :: "char \<Rightarrow> char \<Rightarrow> string \<Rightarrow> (string \<times> string) option" where
  "ITALIC_close d prev [] = None"
| "ITALIC_close d prev (c # cs) =
     (if c = d \<and> \<not> isspace prev \<and> (case cs of [] \<Rightarrow> True | n # _ \<Rightarrow> \<not> isword n)
      then Some ([], cs)
      else if dot c then map_option (\<lambda>(x, r). (c # x, r)) (ITALIC_close d c cs)
      else None)"

fun ITALIC :: "char \<Rightarrow> char option \<Rightarrow> string \<Rightarrow> (string \<times> string) option" where
  "ITALIC d prev (c # n # cs) =
     (if c = d \<and> (case prev of None \<Rightarrow> True | Some p \<Rightarrow> \<not> isword p) \<and> \<not> isspace n \<and> dot n
      then map_option (\<lambda>(x, r). (n # x, r)) (ITALIC_close d n cs)
      else None)"
| "ITALIC d prev _ = None"

record goose_filter =
  buffer :: string
  in_fence :: bool

definition GooseFilter_init :: goose_filter where
  "GooseFilter_init = \<lparr>buffer = [], in_fence = False\<rparr>"

text \<open>\<open>_transform_line\<close>: the transformed line and the fence flag after it.\<close>

definition transform_line :: "bool \<Rightarrow> string \<Rightarrow> string \<times> bool" where
  "transform_line fence line =
     (let stripped = strip line in
      if startswith ''```'' stripped then (line, \<not> fence)
      else if fence then (line, fence)
      else if HORIZONTAL_RULE line then ([], fence)
      else
        let line1 = sub_with id (re_scan (BOLD ''**'') line);
            line2 = sub_with id (re_scan (BOLD ''__'') line1);
            line3 = sub_with id (re_scan_lb (ITALIC (CHR ''*'')) None line2);
            line4 = sub_with id (re_scan_lb (ITALIC (CHR ''_'')) None line3)
        in (line4, fence))"

text \<open>The loop of \<open>_transform\<close> over the lines: the last line, when empty, is the
  artifact of a trailing newline and is kept as it is.\<close>

fun transform_lines :: "bool \<Rightarrow> string list \<Rightarrow> string list \<times> bool" where
  "transform_lines fence [] = ([], fence)"
| "transform_lines fence [l] =
     (if l = [] then ([l], fence)
      else (case transform_line fence l of (out, fence') \<Rightarrow> ([out], fence')))"
| "transform_lines fence (l # ls) =
     (case transform_line fence l of (out, fence') \<Rightarrow>
        (case transform_lines fence' ls of (outs, fence'') \<Rightarrow> (out # outs, fence'')))"

definition transform :: "bool \<Rightarrow> string \<Rightarrow> string \<times> bool" where
  "transform fence text =
     (case transform_lines fence (split_on (CHR 0x0A) text) of
        (outs, fence') \<Rightarrow> (join_with (CHR 0x0A) outs, fence'))"

definition feed :: "goose_filter \<Rightarrow> string \<Rightarrow> string \<times> goose_filter" where
  "feed st text =
     (let buf = buffer st @ text in
      case rfind (CHR 0x0A) buf of
        None \<Rightarrow> ([], st\<lparr>buffer := buf\<rparr>)
      | Some last_nl \<Rightarrow>
          (case transform (in_fence st) (take (last_nl + 1) buf) of
             (out, fence') \<Rightarrow> (out, \<lparr>buffer = drop (last_nl + 1) buf, in_fence = fence'\<rparr>)))"

definition flush :: "goose_filter \<Rightarrow> string \<times> goose_filter" where
  "flush st =
     (if buffer st = [] then ([], st)
      else (case transform (in_fence st) (buffer st) of
              (out, fence') \<Rightarrow> (out, \<lparr>buffer = [], in_fence = fence'\<rparr>)))"

text \<open>A response streamed in chunks: every chunk is fed, then the filter is flushed;
  the client receives the outputs one after the other.\<close>

fun feed_all :: "goose_filter \<Rightarrow> string list \<Rightarrow> string \<times> goose_filter" where
  "feed_all st [] = ([], st)"
| "feed_all st (c # cs) =
     (case feed st c of (out, st') \<Rightarrow>
        (case feed_all st' cs of (outs, st'') \<Rightarrow> (out @ outs, st'')))"

definition stream_output :: "goose_filter \<Rightarrow> string list \<Rightarrow> string" where
  "stream_output st chunks =
     (case feed_all st chunks of (outs, st') \<Rightarrow> outs @ fst (flush st'))"

text \<open>Two notions used in the proofs: the loop of \<open>_transform\<close> on lines none of
  which is the last one, and the output of a fresh filter fed one text and flushed.\<close>

fun map_lines :: "bool \<Rightarrow> string list \<Rightarrow> string list \<times> bool" where
  "map_lines fence [] = ([], fence)"
| "map_lines fence (l # ls) =
     (case transform_line fence l of (out, fence') \<Rightarrow>
        (case map_lines fence' ls of (outs, fence'') \<Rightarrow> (out # outs, fence'')))"

definition oneshot :: "bool \<Rightarrow> string \<Rightarrow> string" where
  "oneshot f s = stream_output \<lparr>buffer = [], in_fence = f\<rparr> [s]"

section \<open>The qwen3 adapter (gateway/adapters/qwen3.py)\<close>

text \<open>\<open>_THINK_BLOCK = <think>.*?</think>\<close>, compiled with \<open>DOTALL\<close>.\<close>

definition THINK_BLOCK :: "string \<Rightarrow> (unit \<times> string) option" where
  "THINK_BLOCK s =
     (if startswith ''<think>'' s
      then map_option (\<lambda>(x, r). ((), r)) (lazy_until dotall ''</think>'' (drop (length ''<think>'') s))
      else None)"

text \<open>
  \<open>OPEN([^>]+)>(.*?)CLOSE\<close> with \<open>DOTALL\<close>, the shape of both \<open>_FUNCTION_BLOCK\<close>
  and \<open>_PARAMETER\<close>: group 1 is the run up to the first \<open>>\<close> and must not be empty,
  group 2 runs up to the first \<open>CLOSE\<close> behind it.
\<close>

definition TAG_BLOCK :: "string \<Rightarrow> string \<Rightarrow> string \<Rightarrow> ((string \<times> string) \<times> string) option" where
  "TAG_BLOCK opn cls s =
     (if startswith opn s then
        (let r = drop (length opn) s;
             g1 = takeWhile (\<lambda>c. c \<noteq> CHR ''>'') r;
             r' = dropWhile (\<lambda>c. c \<noteq> CHR ''>'') r
         in if g1 = [] \<or> r' = [] then None
            else map_option (\<lambda>(g2, rest). ((g1, g2), rest)) (lazy_until dotall cls (tl r')))
      else None)"

definition FUNCTION_BLOCK :: "string \<Rightarrow> ((string \<times> string) \<times> string) option" where
  "FUNCTION_BLOCK = TAG_BLOCK ''<function='' ''</function>''"

definition PARAMETER :: "string \<Rightarrow> ((string \<times> string) \<times> string) option" where
  "PARAMETER = TAG_BLOCK ''<parameter='' ''</parameter>''"

text \<open>
  A parsed call is the pair of its name and its arguments. The arguments are a Python
  dict from strings to strings, kept as an association list in insertion order:
  \<open>args[k] = v\<close> is \<^const>\<open>AList.update\<close>, which overwrites in place or appends.
\<close>

type_synonym arguments = "(string \<times> string) list"

definition parse_arguments :: "string \<Rightarrow> arguments" where
  "parse_arguments body =
     foldl (\<lambda>args (k, v). AList.update (strip k) v args) [] (finditer (re_scan PARAMETER body))"

definition parse_xml_tool_calls :: "string \<Rightarrow> (string \<times> arguments) list \<times> string" where
  "parse_xml_tool_calls text =
     (map (\<lambda>(name, body). (strip name, parse_arguments body)) (finditer (re_scan FUNCTION_BLOCK text)),
      strip (sub_with (\<lambda>g. []) (re_scan FUNCTION_BLOCK text)))"

definition strip_think_tags :: "string \<Rightarrow> string" where
  "strip_think_tags text = strip (sub_with (\<lambda>g. []) (re_scan THINK_BLOCK text))"

text \<open>
  A message of the runtime is a dict. Its two entries the adapter reads may be missing,
  \<open>None\<close> or present; all its other entries are the extension of the record. A tool
  call has the runtime's shape \<open>{"function": {"name": ..., "arguments": ...}}\<close>, with
  an \<open>id\<close> entry or without one. The values of the arguments of a structured call are
  never inspected; the model takes them to be strings, as those of a recovered call are.
\<close>

datatype 'a entry = Missing | Null | Val 'a

record tool_call =
  call_id :: "string option"
  fn_name :: string
  fn_arguments :: arguments

record ollama_msg =
  content :: "string entry"
  tool_calls :: "tool_call list entry"

text \<open>\<open>ollama_msg.get("content", "") or ""\<close> and \<open>ollama_msg.get("tool_calls") or []\<close>.\<close>

definition get_content :: "'a ollama_msg_scheme \<Rightarrow> string" where
  "get_content m = (case content m of Val s \<Rightarrow> s | _ \<Rightarrow> [])"

definition get_tool_calls :: "'a ollama_msg_scheme \<Rightarrow> tool_call list" where
  "get_tool_calls m = (case tool_calls m of Val cs \<Rightarrow> cs | _ \<Rightarrow> [])"

text \<open>
  Modelled from the spec: \<open>ModelAdapter._filter_hallucinated\<close> of adapters/base.py,
  which is not among the sources. The spec (4.3): given a sequence of structured tool
  calls and a valid-name set, return only the calls whose name is a member of the set,
  preserving relative order; if the valid-name set is empty, filtering is a no-op.
\<close>

definition filter_hallucinated :: "tool_call list \<Rightarrow> string set \<Rightarrow> tool_call list" where
  "filter_hallucinated calls valid_names =
     (if valid_names = {} then calls else filter (\<lambda>c. fn_name c \<in> valid_names) calls)"

text \<open>
  The dicts live in a store, a list of objects addressed by position, so that a copy and
  an update in place are different things. \<open>dict(m)\<close> allocates a copy at a fresh
  address; \<open>result[key] = v\<close> updates the object at an address.
\<close>

type_synonym 'a store = "'a ollama_msg_scheme list"

definition dict_copy :: "'a store \<Rightarrow> nat \<Rightarrow> 'a store \<times> nat" where
  "dict_copy h a = (h @ [h ! a], length h)"

definition set_tool_calls :: "'a store \<Rightarrow> nat \<Rightarrow> tool_call list \<Rightarrow> 'a store" where
  "set_tool_calls h a v = h[a := (h ! a)\<lparr>tool_calls := Val v\<rparr>]"

definition set_content :: "'a store \<Rightarrow> nat \<Rightarrow> string \<Rightarrow> 'a store" where
  "set_content h a v = h[a := (h ! a)\<lparr>content := Val v\<rparr>]"

text \<open>The loop of \<open>normalize_tool_calls\<close> that keeps the parsed calls with a valid
  name, in the runtime's shape.\<close>

definition recover :: "(string \<times> arguments) list \<Rightarrow> string set \<Rightarrow> tool_call list" where
  "recover parsed valid_names =
     map (\<lambda>(name, args). \<lparr>call_id = None, fn_name = name, fn_arguments = args\<rparr>)
         (filter (\<lambda>(name, args). name \<in> valid_names) parsed)"

text \<open>
  \<open>Qwen3Adapter.normalize_tool_calls\<close>: \<open>ollama_msg\<close> is the address of the message in
  the store; the result is the store afterwards and the address of the returned dict.
\<close>

definition normalize_tool_calls :: "'a store \<Rightarrow> nat \<Rightarrow> string set \<Rightarrow> 'a store \<times> nat" where
  "normalize_tool_calls h ollama_msg valid_names =
     (let content0 = get_content (h ! ollama_msg);
          tool_calls0 = get_tool_calls (h ! ollama_msg)
      in
      if tool_calls0 \<noteq> [] then
        (case dict_copy h ollama_msg of (h1, result) \<Rightarrow>
           (set_content (set_tool_calls h1 result (filter_hallucinated tool_calls0 valid_names))
              result (strip_think_tags content0), result))
      else
        (let content1 = (if content0 \<noteq> [] then strip_think_tags content0 else content0);
             recovered = (if content0 \<noteq> []
                          then recover (fst (parse_xml_tool_calls content1)) valid_names else [])
         in
         if recovered \<noteq> [] then
           (case dict_copy h ollama_msg of (h1, result) \<Rightarrow>
              (set_content (set_tool_calls h1 result recovered)
                 result (snd (parse_xml_tool_calls content1)), result))
         else if content1 \<noteq> content0 then
           (case dict_copy h ollama_msg of (h1, result) \<Rightarrow>
              (set_content h1 result content1, result))
         else (h, ollama_msg)))"

text \<open>The dict that a call returns.\<close>

definition returned :: "'a store \<times> nat \<Rightarrow> 'a ollama_msg_scheme" where
  "returned r = fst r ! snd r"

text \<open>
  \<open>AIMessage\<close> of the agent path: its content and its tool calls, each
  \<open>{"name": ..., "args": ..., "id": ...}\<close>. \<open>normalize_ai_message\<close> returns the message it
  was given (\<open>Same\<close>) or a new one.
\<close>

record ai_tool_call =
  tc_name :: string
  tc_args :: arguments
  tc_id :: string

record ai_message =
  ai_content :: string
  ai_tool_calls :: "ai_tool_call list"

datatype 'a result = Same | New 'a

text \<open>\<open>str(n)\<close> for a natural number, as an f-string prints it.\<close>

function str_of_nat :: "nat \<Rightarrow> string" where
  "str_of_nat n =
     (if n < 10 then [char_of (48 + n)]
      else str_of_nat (n div 10) @ [char_of (48 + n mod 10)])"
  by pat_completeness auto
termination
  by (relation "measure id") auto

declare str_of_nat.simps [simp del]

text \<open>The loop that builds the tool calls of the new message; the id of a call is
  made from the number of calls built before it.\<close>

fun recover_ai :: "ai_tool_call list \<Rightarrow> (string \<times> arguments) list \<Rightarrow> ai_tool_call list" where
  "recover_ai calls [] = calls"
| "recover_ai calls ((name, args) # parsed) =
     recover_ai (calls @ [\<lparr>tc_name = name, tc_args = args,
                           tc_id = ''recovered_'' @ str_of_nat (length calls)\<rparr>]) parsed"

definition normalize_ai_message :: "ai_message \<Rightarrow> ai_message result" where
  "normalize_ai_message message =
     (let content0 = ai_content message in
      if ai_tool_calls message \<noteq> [] then
        (if strip_think_tags content0 \<noteq> content0
         then New \<lparr>ai_content = strip_think_tags content0, ai_tool_calls = ai_tool_calls message\<rparr>
         else Same)
      else if content0 = [] then Same
      else
        (let content1 = strip_think_tags content0;
             parsed = fst (parse_xml_tool_calls content1);
             cleaned = snd (parse_xml_tool_calls content1)
         in if parsed = [] then
              (if content1 \<noteq> content0 then New \<lparr>ai_content = content1, ai_tool_calls = []\<rparr>
               else Same)
            else New \<lparr>ai_content = cleaned, ai_tool_calls = recover_ai [] parsed\<rparr>))"

subsection \<open>Well-formed Hermes markup\<close>

text \<open>
  A content with well-formed blocks, written out. \<open>contains\<close> is
  Python's \<open>pat in s\<close>. A block is \<open>(NAME, text before the first child, children, prose
  behind the block)\<close> and a child is \<open>(KEY, VALUE, text behind the child)\<close>;
  \<open>hermes_text p0 bs\<close> is the text that starts with the prose \<open>p0\<close> and goes on with the
  blocks \<open>bs\<close>. \<open>NAME\<close> and \<open>KEY\<close> are not empty and hold no \<open>>\<close>, a \<open>VALUE\<close> does
  not hold the closing tag of a parameter, the body of a block does not hold the closing
  tag of a function, and the text between the children and between the blocks does not
  hold an opening tag.
\<close>

fun contains :: "string \<Rightarrow> string \<Rightarrow> bool" where
  "contains pat [] = (pat = [])"
| "contains pat (c # cs) = (startswith pat (c # cs) \<or> contains pat cs)"

type_synonym param = "string \<times> string \<times> string"

type_synonym block = "string \<times> string \<times> param list \<times> string"

definition render_tag :: "string \<Rightarrow> string \<Rightarrow> string \<times> string \<times> string \<Rightarrow> string" where
  "render_tag opn cls = (\<lambda>(g1, g2, after). opn @ g1 @ ''>'' @ g2 @ cls @ after)"

definition render_body :: "string \<Rightarrow> param list \<Rightarrow> string" where
  "render_body pre ps = pre @ concat (map (render_tag ''<parameter='' ''</parameter>'') ps)"

definition render_block :: "block \<Rightarrow> string" where
  "render_block = (\<lambda>(n, pre, ps, after).
      render_tag ''<function='' ''</function>'' (n, render_body pre ps, after))"

definition hermes_text :: "string \<Rightarrow> block list \<Rightarrow> string" where
  "hermes_text p0 bs = p0 @ concat (map render_block bs)"

definition wf_group1 :: "string \<Rightarrow> bool" where
  "wf_group1 n = (n \<noteq> [] \<and> CHR ''>'' \<notin> set n)"

definition wf_param :: "param \<Rightarrow> bool" where
  "wf_param = (\<lambda>(k, v, after).
      wf_group1 k \<and> \<not> contains ''</parameter>'' v \<and> \<not> contains ''<parameter='' after)"

definition wf_block :: "block \<Rightarrow> bool" where
  "wf_block = (\<lambda>(n, pre, ps, after).
      wf_group1 n \<and> \<not> contains ''<parameter='' pre \<and> list_all wf_param ps
      \<and> \<not> contains ''</function>'' (render_body pre ps) \<and> \<not> contains ''<function='' after)"

text \<open>
  What is expected of a block: the name trimmed, the arguments a dict filled in the
  order of the children with each key trimmed and each value as it stands, and the prose
  that is left when the blocks are taken out.
\<close>

definition expected_arguments :: "param list \<Rightarrow> arguments" where
  "expected_arguments ps = foldl (\<lambda>args (k, v, after). AList.update (strip k) v args) [] ps"

definition expected_call :: "block \<Rightarrow> tool_call" where
  "expected_call = (\<lambda>(n, pre, ps, after).
      \<lparr>call_id = None, fn_name = strip n, fn_arguments = expected_arguments ps\<rparr>)"

definition prose :: "string \<Rightarrow> block list \<Rightarrow> string" where
  "prose p0 bs = p0 @ concat (map (\<lambda>(n, pre, ps, after). after) bs)"

text \<open>No transform applies to a message: it has no structured calls, no call with a
  valid name is recovered from its content, and there is nothing to strip.\<close>

definition no_transform :: "'a ollama_msg_scheme \<Rightarrow> string set \<Rightarrow> bool" where
  "no_transform m valid_names =
     (get_tool_calls m = []
      \<and> recover (fst (parse_xml_tool_calls (strip_think_tags (get_content m)))) valid_names = []
      \<and> strip_think_tags (get_content m) = get_content m)"

text \<open>The inverse of \<open>str_of_nat\<close>, used to show that it is injective.\<close>

definition nat_of_str :: "string \<Rightarrow> nat" where
  "nat_of_str s = foldl (\<lambda>n c. 10 * n + (of_char c - 48)) 0 s"

text \<open>Example messages.\<close>

definition demo_message :: ollama_msg where
  "demo_message = \<lparr>content = Val '' <think>hmm</think> Let me search. <function= web_search ><parameter= query >python docs</parameter><parameter=n>3</parameter></function> Done.<function=read_file></function>'', tool_calls = Null\<rparr>"

definition demo_blocks :: "block list" where
  "demo_blocks = [('' web_search '', [], [('' query '', ''python docs'', []), (''n'', ''3'', [])], '' Done.''),
                  (''read_file'', [], [], [])]"

definition think_in_value :: ollama_msg where
  "think_in_value = \<lparr>content = Val '' x <function=f><parameter=k>a<think>b</think>c</parameter></function>'', tool_calls = Missing\<rparr>"

definition structured_message :: ollama_msg where
  "structured_message = \<lparr>content = Val ''hi'',
      tool_calls = Val [\<lparr>call_id = Some ''1'', fn_name = ''web_search'', fn_arguments = [(''query'', ''x'')]\<rparr>,
                        \<lparr>call_id = Some ''2'', fn_name = ''invented_tool'', fn_arguments = []\<rparr>]\<rparr>"

definition xml_message :: ollama_msg where
  "xml_message = \<lparr>content = Val ''<function=web_search><parameter=query>x</parameter></function>'',
      tool_calls = Null\<rparr>"

definition plain_message :: ollama_msg where
  "plain_message = \<lparr>content = Val ''Hello world.'', tool_calls = Null\<rparr>"

definition xml_ai_message :: ai_message where
  "xml_ai_message = \<lparr>ai_content = ''<function=web_search><parameter=query>a</parameter></function><function=read_file><parameter=path>/b</parameter></function>'', ai_tool_calls = []\<rparr>"

section \<open>The agent graph (agent/graph.py and agent/nodes)\<close>

text \<open>
  Exceptions are values. \<open>RequestError\<close> stands for whatever the completion client
  raises when the runtime cannot be reached or answers with an error status.
\<close>

datatype py_error = JSONDecodeError | ValueError | TypeError | AttributeError | OverflowError
  | RequestError

text \<open>A Python float by its value (rounding is not modelled), and a decoded JSON
  document; a JSON object is a dict, kept as an association list with distinct keys.\<close>

datatype pyfloat = Finite real | PosInf | NegInf | NaN

datatype json = JNull | JBool bool | JInt int | JFloat pyfloat | JStr string
  | JArr "json list" | JObj "(string \<times> json) list"

text \<open>
  The functions of Python's library that the nodes call and that are not modelled here:
  \<open>json.loads\<close>, \<open>float\<close> of a string (\<open>None\<close> is \<open>ValueError\<close>) and of an int
  (\<open>None\<close> is \<open>OverflowError\<close>), and the order in which a set of strings is listed.
\<close>

record pylib =
  json_loads :: "string \<Rightarrow> py_error + json"
  float_of_str :: "string \<Rightarrow> pyfloat option"
  float_of_int :: "int \<Rightarrow> pyfloat option"
  list_of_set :: "string set \<Rightarrow> string list"

text \<open>Truth value of a JSON value, \<open>float(x)\<close>, \<open>d.get(k, default)\<close> and
  \<open>sep.join(x)\<close>.\<close>

fun truthy :: "json \<Rightarrow> bool" where
  "truthy JNull = False"
| "truthy (JBool b) = b"
| "truthy (JInt i) = (i \<noteq> 0)"
| "truthy (JFloat f) = (f \<noteq> Finite 0)"
| "truthy (JStr s) = (s \<noteq> [])"
| "truthy (JArr xs) = (xs \<noteq> [])"
| "truthy (JObj kvs) = (kvs \<noteq> [])"

fun py_float :: "pylib \<Rightarrow> json \<Rightarrow> py_error + pyfloat" where
  "py_float lib JNull = Inl TypeError"
| "py_float lib (JBool b) = Inr (Finite (if b then 1 else 0))"
| "py_float lib (JInt i) = (case float_of_int lib i of None \<Rightarrow> Inl OverflowError | Some f \<Rightarrow> Inr f)"
| "py_float lib (JFloat f) = Inr f"
| "py_float lib (JStr s) = (case float_of_str lib s of None \<Rightarrow> Inl ValueError | Some f \<Rightarrow> Inr f)"
| "py_float lib (JArr xs) = Inl TypeError"
| "py_float lib (JObj kvs) = Inl TypeError"

definition dict_get :: "(string \<times> json) list \<Rightarrow> string \<Rightarrow> json \<Rightarrow> json" where
  "dict_get kvs k d = (case map_of kvs k of None \<Rightarrow> d | Some v \<Rightarrow> v)"

fun join_str :: "string \<Rightarrow> string list \<Rightarrow> string" where
  "join_str sep [] = []"
| "join_str sep [x] = x"
| "join_str sep (x # xs) = x @ sep @ join_str sep xs"

fun the_str :: "json \<Rightarrow> string option" where
  "the_str (JStr s) = Some s"
| "the_str _ = None"

fun py_join :: "string \<Rightarrow> json \<Rightarrow> py_error + string" where
  "py_join sep (JArr xs) =
     (if list_all (\<lambda>x. the_str x \<noteq> None) xs
      then Inr (join_str sep (map (\<lambda>x. case the_str x of Some s \<Rightarrow> s | None \<Rightarrow> []) xs))
      else Inl TypeError)"
| "py_join sep (JStr s) = Inr (join_str sep (map (\<lambda>c. [c]) s))"
| "py_join sep (JObj kvs) = Inr (join_str sep (map fst kvs))"
| "py_join sep _ = Inl TypeError"

text \<open>\<open>except (json.JSONDecodeError, ValueError)\<close>.\<close>

definition caught :: "py_error \<Rightarrow> bool" where
  "caught e = (e = JSONDecodeError \<or> e = ValueError)"

text \<open>
  The start of both parsers: \<open>text = response.strip()\<close>, and when the text starts with
  a code fence, \<open>re.sub(r"```(?:json)?\n?", "", text).strip()\<close>.
\<close>

definition CODE_FENCE :: "string \<Rightarrow> (unit \<times> string) option" where
  "CODE_FENCE s =
     (if startswith ''```'' s then
        (let r1 = drop 3 s;
             r2 = (if startswith ''json'' r1 then drop 4 r1 else r1);
             r3 = (if startswith [CHR 0x0A] r2 then drop 1 r2 else r2)
         in Some ((), r3))
      else None)"

definition strip_code_fence :: "string \<Rightarrow> string" where
  "strip_code_fence response =
     (let text = strip response in
      if startswith ''```'' text then strip (sub_with (\<lambda>g. []) (re_scan CODE_FENCE text))
      else text)"

subsection \<open>The interpreter node\<close>

record intent =
  intent_type :: json
  confidence :: pyfloat
  entities :: json
  inferred_url :: json

definition default_intent :: intent where
  "default_intent = \<lparr>intent_type = JStr ''question'', confidence = Finite (1/2),
                      entities = JArr [], inferred_url = JNull\<rparr>"

text \<open>The \<open>try\<close> block of \<open>interpreter_node\<close> on the response of the model, and the
  node with its handler. The node is modelled from the response on: the call of the
  client that yields it comes before the \<open>try\<close> block, and an exception of the client
  leaves the node as it is raised.\<close>

definition parse_intent :: "pylib \<Rightarrow> string \<Rightarrow> py_error + intent" where
  "parse_intent lib response =
     (case json_loads lib (strip_code_fence response) of
        Inl e \<Rightarrow> Inl e
      | Inr data \<Rightarrow>
          (case data of
             JObj kvs \<Rightarrow>
               (case py_float lib (dict_get kvs ''confidence'' (JFloat (Finite (1/2)))) of
                  Inl e \<Rightarrow> Inl e
                | Inr c \<Rightarrow>
                    Inr \<lparr>intent_type = dict_get kvs ''intent'' (JStr ''question''),
                         confidence = c,
                         entities = dict_get kvs ''entities'' (JArr []),
                         inferred_url = dict_get kvs ''inferred_url'' JNull\<rparr>)
           | _ \<Rightarrow> Inl AttributeError))"

definition interpreter_node :: "pylib \<Rightarrow> string \<Rightarrow> py_error + intent" where
  "interpreter_node lib response =
     (case parse_intent lib response of
        Inl e \<Rightarrow> if caught e then Inr default_intent else Inl e
      | Inr i \<Rightarrow> Inr i)"

subsection \<open>The state of the graph and the completion client\<close>

text \<open>
  \<open>AgentState\<close> is a \<open>TypedDict\<close> with \<open>total=False\<close>: every entry may be absent. The
  entries that the nodes below read or write are fields; the others are the extension of
  the record. A node returns the entries it changes and the graph merges them into the
  state; the model of a node returns the merged state.
\<close>

record research_result =
  rr_source :: string
  rr_content :: string
  rr_url :: string

record agent_state =
  message :: "string option"
  research_results :: "research_result list option"
  research_summary :: "string option"
  ingestion_status :: "string option"
  ingestion_message :: "string option"
  pages_indexed :: "int option"
  collection_name :: "string option"
  draft_response :: "string option"
  sources :: "string list option"
  is_approved :: "json option"
  critique_count :: "int option"
  critique_score :: "pyfloat option"
  critique_feedback :: "string option"
  final_response :: "string option"
  actions_taken :: "string list option"

definition get_or :: "'a \<Rightarrow> 'a option \<Rightarrow> 'a" where
  "get_or d x = (case x of None \<Rightarrow> d | Some v \<Rightarrow> v)"

text \<open>
  A call of \<open>OllamaClient.generate\<close>. The prompt is a fixed template filled with three
  texts, so a request is given by the node that makes it and these texts. The client
  answers a request, knowing the requests made before it, with a text or an exception.
\<close>

datatype request = Synthesis_Request string string string | Critic_Request string string string

type_synonym client = "request list \<Rightarrow> request \<Rightarrow> py_error + string"

fun is_critic_request :: "request \<Rightarrow> bool" where
  "is_critic_request (Critic_Request m d s) = True"
| "is_critic_request _ = False"

subsection \<open>The nodes\<close>

definition extract_sources :: "pylib \<Rightarrow> research_result list \<Rightarrow> string list" where
  "extract_sources lib results =
     take 5 (list_of_set lib (set (filter (\<lambda>u. u \<noteq> []) (map rr_url results))))"

definition synthesis_node ::
  "pylib \<Rightarrow> client \<Rightarrow> request list \<Rightarrow> 'a agent_state_scheme
   \<Rightarrow> py_error + ('a agent_state_scheme \<times> request list)" where
  "synthesis_node lib client hist st =
     (let results = get_or [] (research_results st);
          summary = get_or [] (research_summary st);
          rag_context_parts =
            map (\<lambda>r. take 500 (rr_content r))
                (filter (\<lambda>r. startswith ''rag:'' (rr_source r) \<and> rr_content r \<noteq> []) results);
          rag_context = (if rag_context_parts \<noteq> [] then join_with (CHR 0x0A) rag_context_parts
                         else ''No stored context available.'');
          rq = Synthesis_Request (get_or [] (message st))
                 (if summary \<noteq> [] then summary else ''No research results available.'')
                 rag_context
      in case client hist rq of
           Inl e \<Rightarrow> Inl e
         | Inr response \<Rightarrow>
             Inr (st\<lparr>draft_response := Some response,
                     sources := Some (extract_sources lib results)\<rparr>, hist @ [rq]))"

text \<open>The \<open>try\<close> block of \<open>critic_node\<close> on the response of the model: approval, score
  and feedback; then the block with its handler.\<close>

definition parse_critique :: "pylib \<Rightarrow> string \<Rightarrow> py_error + (json \<times> pyfloat \<times> string)" where
  "parse_critique lib response =
     (case json_loads lib (strip_code_fence response) of
        Inl e \<Rightarrow> Inl e
      | Inr data \<Rightarrow>
          (case data of
             JObj kvs \<Rightarrow>
               (let approved = dict_get kvs ''is_approved'' (JBool True) in
                case py_float lib (dict_get kvs ''score'' (JFloat (Finite (8/10)))) of
                  Inl e \<Rightarrow> Inl e
                | Inr score \<Rightarrow>
                    (let issues = dict_get kvs ''issues'' (JArr []);
                         suggestions = dict_get kvs ''suggestions'' (JArr [])
                     in
                     if truthy approved then Inr (approved, score, [])
                     else
                       (case (if truthy issues then py_join ''; '' issues else Inr []) of
                          Inl e \<Rightarrow> Inl e
                        | Inr i \<Rightarrow>
                            (case (if truthy suggestions then py_join ''; '' suggestions else Inr []) of
                               Inl e \<Rightarrow> Inl e
                             | Inr s \<Rightarrow>
                                 Inr (approved, score,
                                      (if truthy issues then ''Issues: '' @ i @ [CHR 0x0A] else [])
                                      @ (if truthy suggestions then ''Suggestions: '' @ s else []))))))
           | _ \<Rightarrow> Inl AttributeError))"

definition critic_verdict :: "pylib \<Rightarrow> string \<Rightarrow> py_error + (json \<times> pyfloat \<times> string)" where
  "critic_verdict lib response =
     (case parse_critique lib response of
        Inl e \<Rightarrow> if caught e then Inr (JBool True, Finite (7/10), []) else Inl e
      | Inr v \<Rightarrow> Inr v)"

definition critic_node ::
  "pylib \<Rightarrow> client \<Rightarrow> request list \<Rightarrow> 'a agent_state_scheme
   \<Rightarrow> py_error + ('a agent_state_scheme \<times> request list)" where
  "critic_node lib client hist st =
     (let count = get_or 0 (critique_count st) + 1;
          max_critiques = 3
      in
      if count \<ge> max_critiques then
        Inr (st\<lparr>is_approved := Some (JBool True),
                critique_count := Some count,
                critique_feedback := Some ''Auto-approved after maximum critique attempts.''\<rparr>, hist)
      else
        (let summary = get_or [] (research_summary st);
             rq = Critic_Request (get_or [] (message st)) (get_or [] (draft_response st))
                    (if summary \<noteq> [] then summary else ''No research available.'')
         in case client hist rq of
              Inl e \<Rightarrow> Inl e
            | Inr response \<Rightarrow>
                (case critic_verdict lib response of
                   Inl e \<Rightarrow> Inl e
                 | Inr (approved, score, feedback) \<Rightarrow>
                     Inr (st\<lparr>is_approved := Some approved,
                             critique_count := Some count,
                             critique_score := Some score,
                             critique_feedback := Some feedback\<rparr>, hist @ [rq]))))"

datatype node = Ingest_Response | Synthesis | Critic | Revise | Answer

definition route_after_critic :: "'a agent_state_scheme \<Rightarrow> node" where
  "route_after_critic st =
     (if truthy (get_or (JBool False) (is_approved st)) \<or> get_or 0 (critique_count st) \<ge> 3
      then Answer else Revise)"

definition revise_node :: "'a agent_state_scheme \<Rightarrow> 'a agent_state_scheme" where
  "revise_node st =
     st\<lparr>research_summary :=
          Some (get_or [] (research_summary st) @ [CHR 0x0A, CHR 0x0A]
                @ ''Previous draft issues: '' @ get_or [] (critique_feedback st))\<rparr>"

definition answer_actions :: "'a agent_state_scheme \<Rightarrow> string list" where
  "answer_actions st =
     (if ingestion_status st = Some ''success'' then [''crawl''] else [])
     @ (if get_or [] (research_results st) \<noteq> [] then [''research''] else [])
     @ (if get_or 0 (critique_count st) > 1 then [''revise''] else [])
     @ [''synthesize'']"

definition answer_node :: "'a agent_state_scheme \<Rightarrow> 'a agent_state_scheme" where
  "answer_node st =
     st\<lparr>final_response := Some (get_or [] (draft_response st)),
        actions_taken := Some (answer_actions st)\<rparr>"

definition str_of_int :: "int \<Rightarrow> string" where
  "str_of_int i = (if i < 0 then ''-'' @ str_of_nat (nat (- i)) else str_of_nat (nat i))"

definition ingest_then_synthesize :: "'a agent_state_scheme \<Rightarrow> 'a agent_state_scheme" where
  "ingest_then_synthesize st =
     st\<lparr>draft_response := Some
          (if get_or [] (ingestion_status st) = ''success''
           then ''I've indexed the documentation you requested. ''
                @ ''Processed '' @ str_of_int (get_or 0 (pages_indexed st))
                @ '' pages and stored them in the ''
                @ [CHR 0x27] @ get_or [] (collection_name st) @ [CHR 0x27] @ '' collection. ''
                @ ''You can now ask questions about this documentation.''
           else ''I encountered an issue while indexing: '' @ get_or [] (ingestion_message st)),
        is_approved := Some (JBool True)\<rparr>"

subsection \<open>The graph\<close>

text \<open>
  The part of the graph behind research and ingestion, as \<open>build_graph\<close> wires it:
  \<open>ingest_response -> answer\<close>, \<open>synthesis -> critic\<close>, \<open>critic -> answer | revise\<close>
  by \<open>route_after_critic\<close>, \<open>revise -> synthesis\<close>, and \<open>answer\<close> is terminal.
  A run carries the state, the requests made to the client and the nodes executed, and
  ends with an exception or with the three of them.
\<close>

definition steps_left :: "node \<Rightarrow> 'a agent_state_scheme \<Rightarrow> nat" where
  "steps_left nd st =
     (case nd of
        Answer \<Rightarrow> 0
      | Ingest_Response \<Rightarrow> 1
      | Critic \<Rightarrow> 3 * nat (3 - get_or 0 (critique_count st)) + 1
      | Synthesis \<Rightarrow> 3 * nat (3 - get_or 0 (critique_count st)) + 2
      | Revise \<Rightarrow> 3 * nat (3 - get_or 0 (critique_count st)) + 3)"

function run_graph ::
  "pylib \<Rightarrow> client \<Rightarrow> node \<Rightarrow> 'a agent_state_scheme \<times> request list \<times> node list
   \<Rightarrow> py_error + ('a agent_state_scheme \<times> request list \<times> node list)" where
  "run_graph lib client Ingest_Response (st, hist, tr) =
     run_graph lib client Answer (ingest_then_synthesize st, hist, tr @ [Ingest_Response])"
| "run_graph lib client Synthesis (st, hist, tr) =
     (case synthesis_node lib client hist st of
        Inl e \<Rightarrow> Inl e
      | Inr (st', hist') \<Rightarrow> run_graph lib client Critic (st', hist', tr @ [Synthesis]))"
| "run_graph lib client Critic (st, hist, tr) =
     (case critic_node lib client hist st of
        Inl e \<Rightarrow> Inl e
      | Inr (st', hist') \<Rightarrow>
          run_graph lib client (route_after_critic st') (st', hist', tr @ [Critic]))"
| "run_graph lib client Revise (st, hist, tr) =
     run_graph lib client Synthesis (revise_node st, hist, tr @ [Revise])"
| "run_graph lib client Answer (st, hist, tr) =
     Inr (answer_node st, hist, tr @ [Answer])"
  by pat_completeness auto
termination
proof (relation "measure (\<lambda>(lib, client, nd, st, hist, tr). steps_left nd st)")
  show "wf (measure (\<lambda>(lib :: pylib, client :: client, nd, (st :: 'a agent_state_scheme, hist :: request list, tr :: node list)). steps_left nd st))"
    by simp
next
  fix lib :: pylib and client :: client and st :: "'a agent_state_scheme" and hist :: "request list" and tr :: "node list"
  show "((lib, client, Answer, ingest_then_synthesize st, hist, tr @ [Ingest_Response]),
         (lib, client, Ingest_Response, st, hist, tr))
        \<in> measure (\<lambda>(lib, client, nd, st, hist, tr). steps_left nd st)"
    by (simp add: steps_left_def)
next
  fix lib :: pylib and client :: client and st :: "'a agent_state_scheme" and hist :: "request list" and tr :: "node list"
    and x2 st' hist'
  assume "synthesis_node lib client hist st = Inr x2" "(st', hist') = x2"
  then have "critique_count st' = critique_count st"
    by (auto simp: synthesis_node_def Let_def split: sum.splits)
  then show "((lib, client, Critic, st', hist', tr @ [Synthesis]), (lib, client, Synthesis, st, hist, tr))
        \<in> measure (\<lambda>(lib, client, nd, st, hist, tr). steps_left nd st)"
    by (simp add: steps_left_def)
next
  fix lib :: pylib and client :: client and st :: "'a agent_state_scheme" and hist :: "request list" and tr :: "node list"
    and x2 st' hist'
  assume a: "critic_node lib client hist st = Inr x2" "(st', hist') = x2"
  then have c: "critique_count st' = Some (get_or 0 (critique_count st) + 1)"
    by (auto simp: critic_node_def Let_def split: sum.splits if_splits)
  show "((lib, client, route_after_critic st', st', hist', tr @ [Critic]), (lib, client, Critic, st, hist, tr))
        \<in> measure (\<lambda>(lib, client, nd, st, hist, tr). steps_left nd st)"
    using c by (auto simp: steps_left_def route_after_critic_def get_or_def)
next
  fix lib :: pylib and client :: client and st :: "'a agent_state_scheme" and hist :: "request list" and tr :: "node list"
  show "((lib, client, Synthesis, revise_node st, hist, tr @ [Revise]), (lib, client, Revise, st, hist, tr))
        \<in> measure (\<lambda>(lib, client, nd, st, hist, tr). steps_left nd st)"
    by (simp add: steps_left_def revise_node_def)
qed

subsection \<open>Example library, client and states\<close>

text \<open>Example library: a decoder that knows the responses of the examples, Python's
  conversion of small ints, no string that reads as a float, sets listed in order.\<close>

definition demo_lib :: pylib where
  \<open>demo_lib = \<lparr>
     json_loads = (\<lambda>s.
        if s = ''{"intent": "banana", "confidence": 7}''
        then Inr (JObj [(''intent'', JStr ''banana''), (''confidence'', JInt 7)])
        else if s = ''{"intent": "learning", "confidence": "high"}''
        then Inr (JObj [(''intent'', JStr ''learning''), (''confidence'', JStr ''high'')])
        else if s = ''{"is_approved": false, "score": 0, "issues": ["vague"]}''
        then Inr (JObj [(''is_approved'', JBool False), (''score'', JInt 0), (''issues'', JArr [JStr ''vague''])])
        else if s = ''{"is_approved": false, "score": "high"}''
        then Inr (JObj [(''is_approved'', JBool False), (''score'', JStr ''high'')])
        else Inl JSONDecodeError),
     float_of_str = (\<lambda>s. None),
     float_of_int = (\<lambda>i. Some (Finite (of_int i))),
     list_of_set = sorted_list_of_set\<rparr>\<close>

text \<open>Example client: every draft is rejected.\<close>

definition rejecting_client :: client where
  \<open>rejecting_client hist rq =
     (if is_critic_request rq
      then Inr (''```json'' @ [CHR 0x0A] @ ''{"is_approved": false, "score": 0, "issues": ["vague"]}'' @ [CHR 0x0A] @ ''```'')
      else Inr ''A draft.'')\<close>

definition fresh_state :: agent_state where
  "fresh_state = \<lparr>message = Some ''What is a monad?'', research_results = Some [], research_summary = Some [],
     ingestion_status = None, ingestion_message = None, pages_indexed = None, collection_name = None,
     draft_response = None, sources = None, is_approved = None, critique_count = None,
     critique_score = None, critique_feedback = None, final_response = None, actions_taken = None\<rparr>"


text \<open>The state and the requests at the end of the run of the example.\<close>

definition rejected_state :: agent_state where
  "rejected_state = \<lparr>message = Some ''What is a monad?'', research_results = Some [],
     research_summary = Some ([CHR 0x0A, CHR 0x0A] @ ''Previous draft issues: Issues: vague'' @ [CHR 0x0A]
                              @ [CHR 0x0A, CHR 0x0A] @ ''Previous draft issues: Issues: vague'' @ [CHR 0x0A]),
     ingestion_status = None, ingestion_message = None, pages_indexed = None, collection_name = None,
     draft_response = Some ''A draft.'', sources = Some [], is_approved = Some (JBool True),
     critique_count = Some 3, critique_score = Some (Finite 0),
     critique_feedback = Some ''Auto-approved after maximum critique attempts.'',
     final_response = Some ''A draft.'', actions_taken = Some [''revise'', ''synthesize'']\<rparr>"

definition rejected_history :: "request list" where
  "rejected_history =
     [Synthesis_Request ''What is a monad?'' ''No research results available.'' ''No stored context available.'',
      Critic_Request ''What is a monad?'' ''A draft.'' ''No research available.'',
      Synthesis_Request ''What is a monad?''
        ([CHR 0x0A, CHR 0x0A] @ ''Previous draft issues: Issues: vague'' @ [CHR 0x0A])
        ''No stored context available.'',
      Critic_Request ''What is a monad?'' ''A draft.''
        ([CHR 0x0A, CHR 0x0A] @ ''Previous draft issues: Issues: vague'' @ [CHR 0x0A]),
      Synthesis_Request ''What is a monad?''
        ([CHR 0x0A, CHR 0x0A] @ ''Previous draft issues: Issues: vague'' @ [CHR 0x0A]
         @ [CHR 0x0A, CHR 0x0A] @ ''Previous draft issues: Issues: vague'' @ [CHR 0x0A])
        ''No stored context available.'']"


text \<open>Example client: every draft is rejected, with a score that is not a number; and
  the state and the requests at the end of its run.\<close>

definition unscored_client :: client where
  \<open>unscored_client hist rq =
     (if is_critic_request rq then Inr ''{"is_approved": false, "score": "high"}''
      else Inr ''A draft.'')\<close>

definition unscored_state :: agent_state where
  "unscored_state = \<lparr>message = Some ''What is a monad?'', research_results = Some [],
     research_summary = Some [],
     ingestion_status = None, ingestion_message = None, pages_indexed = None, collection_name = None,
     draft_response = Some ''A draft.'', sources = Some [], is_approved = Some (JBool True),
     critique_count = Some 1, critique_score = Some (Finite (7/10)),
     critique_feedback = Some [],
     final_response = Some ''A draft.'', actions_taken = Some [''synthesize'']\<rparr>"

definition unscored_history :: "request list" where
  "unscored_history =
     [Synthesis_Request ''What is a monad?'' ''No research results available.'' ''No stored context available.'',
      Critic_Request ''What is a monad?'' ''A draft.'' ''No research available.'']"

section \<open>Properties of the content filter\<close>

lemma split_on_nonempty: "split_on c s \<noteq> []"
  by (induction s) (auto split: list.splits)

lemma split_on_append: "split_on c (a @ c # b) = split_on c a @ split_on c b"
proof (induction a)
  case Nil
  show ?case by simp
next
  case (Cons x xs)
  then show ?case using split_on_nonempty [of c xs]
    by (cases "split_on c xs") auto
qed

lemma split_on_snoc: "split_on c (a @ [c]) = split_on c a @ [[]]"
  using split_on_append [of c a "[]"] by simp

lemma transform_lines_append:
  "ys \<noteq> [] \<Longrightarrow> transform_lines f (xs @ ys) =
     (case map_lines f xs of (o1, f1) \<Rightarrow>
        (case transform_lines f1 ys of (o2, f2) \<Rightarrow> (o1 @ o2, f2)))"
proof (induction xs arbitrary: f)
  case Nil
  show ?case by simp
next
  case (Cons x xs)
  obtain z zs where z: "xs @ ys = z # zs" using Cons.prems by (cases "xs @ ys") auto
  show ?case using Cons.IH [OF Cons.prems] z
    by (simp add: z split: prod.splits)
qed

lemma map_lines_length: "length (fst (map_lines f xs)) = length xs"
proof (induction xs arbitrary: f)
  case Nil
  show ?case by simp
next
  case (Cons x xs)
  obtain out f1 where t: "transform_line f x = (out, f1)" by force
  obtain outs f2 where m: "map_lines f1 xs = (outs, f2)" by force
  show ?case using Cons [of f1] by (simp add: t m)
qed

lemma transform_lines_length: "length (fst (transform_lines f xs)) = length xs"
proof (induction xs arbitrary: f)
  case Nil
  show ?case by simp
next
  case (Cons x xs)
  show ?case
  proof (cases xs)
    case Nil
    then show ?thesis by (simp split: prod.splits)
  next
    case (Cons y ys)
    obtain out f1 where t: "transform_line f x = (out, f1)" by force
    obtain outs f2 where m: "transform_lines f1 (y # ys) = (outs, f2)" by force
    show ?thesis using Cons.IH [of f1] by (simp add: Cons t m)
  qed
qed

lemma join_with_append:
  "xs \<noteq> [] \<Longrightarrow> ys \<noteq> [] \<Longrightarrow> join_with c (xs @ ys) = join_with c xs @ c # join_with c ys"
proof (induction xs)
  case Nil
  then show ?case by simp
next
  case (Cons x xs)
  then show ?case by (cases xs; cases ys) auto
qed

lemma join_with_snoc_empty:
  "xs \<noteq> [] \<Longrightarrow> join_with c (xs @ [[]]) = join_with c xs @ [c]"
  using join_with_append [of xs "[[]]" c] by simp

lemma transform_snoc_nl:
  "transform f (a @ [CHR 0x0A]) =
     (case map_lines f (split_on (CHR 0x0A) a) of (os, f1) \<Rightarrow> (join_with (CHR 0x0A) os @ [CHR 0x0A], f1))"
proof -
  obtain os f1 where m: "map_lines f (split_on (CHR 0x0A) a) = (os, f1)" by force
  have "length os = length (split_on (CHR 0x0A) a)" using map_lines_length [of f "split_on (CHR 0x0A) a"] m by simp
  then have ne: "os \<noteq> []" using split_on_nonempty [of "CHR 0x0A" a] by auto
  show ?thesis
    by (simp add: transform_def split_on_snoc transform_lines_append m join_with_snoc_empty [OF ne])
qed

lemma transform_append_nl:
  "transform f (a @ CHR 0x0A # b) =
     (case transform f (a @ [CHR 0x0A]) of (oa, f1) \<Rightarrow>
        (case transform f1 b of (ob, f2) \<Rightarrow> (oa @ ob, f2)))"
proof -
  obtain os f1 where m: "map_lines f (split_on (CHR 0x0A) a) = (os, f1)" by force
  obtain ps f2 where t: "transform_lines f1 (split_on (CHR 0x0A) b) = (ps, f2)" by force
  have "length os = length (split_on (CHR 0x0A) a)" using map_lines_length [of f "split_on (CHR 0x0A) a"] m by simp
  then have ne1: "os \<noteq> []" using split_on_nonempty [of "CHR 0x0A" a] by auto
  have "length ps = length (split_on (CHR 0x0A) b)" using transform_lines_length [of f1 "split_on (CHR 0x0A) b"] t by simp
  then have ne2: "ps \<noteq> []" using split_on_nonempty [of "CHR 0x0A" b] by auto
  have whole: "transform f (a @ CHR 0x0A # b) = (join_with (CHR 0x0A) (os @ ps), f2)"
    by (simp add: transform_def split_on_append transform_lines_append split_on_nonempty m t)
  have left: "transform f (a @ [CHR 0x0A]) = (join_with (CHR 0x0A) os @ [CHR 0x0A], f1)"
    by (simp add: transform_snoc_nl m)
  have right: "transform f1 b = (join_with (CHR 0x0A) ps, f2)"
    by (simp add: transform_def t)
  show ?thesis
    by (simp add: whole left right join_with_append [OF ne1 ne2])
qed

lemma rfind_None: "c \<notin> set s \<Longrightarrow> rfind c s = None"
  by (simp add: rfind_def)

lemma rfind_last: "c \<notin> set t \<Longrightarrow> rfind c (r @ c # t) = Some (length r)"
proof -
  assume a: "c \<notin> set t"
  have "takeWhile (\<lambda>x. x \<noteq> c) (rev t @ c # rev r) = rev t @ takeWhile (\<lambda>x. x \<noteq> c) (c # rev r)"
    by (rule takeWhile_append2) (use a in auto)
  then show ?thesis by (simp add: rfind_def)
qed

lemma feed_no_nl:
  "CHR 0x0A \<notin> set (buffer st @ text) \<Longrightarrow> feed st text = ([], st\<lparr>buffer := buffer st @ text\<rparr>)"
  using rfind_None [of "CHR 0x0A" "buffer st @ text"] by (simp add: feed_def)

lemma feed_nl:
  "buffer st @ text = r @ CHR 0x0A # t \<Longrightarrow> CHR 0x0A \<notin> set t \<Longrightarrow>
   feed st text = (fst (transform (in_fence st) (r @ [CHR 0x0A])),
                   \<lparr>buffer = t, in_fence = snd (transform (in_fence st) (r @ [CHR 0x0A]))\<rparr>)"
  using rfind_last [of "CHR 0x0A" t r] by (simp add: feed_def Let_def split: prod.splits)

lemma oneshot_no_nl:
  "CHR 0x0A \<notin> set s \<Longrightarrow> oneshot f s = (if s = [] then [] else fst (transform f s))"
  using feed_no_nl [of "\<lparr>buffer = [], in_fence = f\<rparr>" s]
  by (simp add: oneshot_def stream_output_def flush_def split: prod.splits)

lemma oneshot_last_nl:
  assumes "CHR 0x0A \<notin> set t"
  shows "oneshot f (r @ CHR 0x0A # t) =
           fst (transform f (r @ [CHR 0x0A])) @ oneshot (snd (transform f (r @ [CHR 0x0A]))) t"
  using feed_nl [of "\<lparr>buffer = [], in_fence = f\<rparr>" "r @ CHR 0x0A # t" r t] assms
  by (simp add: oneshot_def stream_output_def flush_def oneshot_no_nl feed_no_nl split: prod.splits)

lemma oneshot_nl:
  "oneshot f (a @ CHR 0x0A # y) =
     fst (transform f (a @ [CHR 0x0A])) @ oneshot (snd (transform f (a @ [CHR 0x0A]))) y"
proof (cases "CHR 0x0A \<in> set y")
  case False
  then show ?thesis by (rule oneshot_last_nl)
next
  case True
  then obtain y1 y2 where y: "y = y1 @ CHR 0x0A # y2" and n: "CHR 0x0A \<notin> set y2"
    using split_list_last [of "CHR 0x0A" y] by blast
  have "oneshot f ((a @ CHR 0x0A # y1) @ CHR 0x0A # y2) =
          fst (transform f ((a @ CHR 0x0A # y1) @ [CHR 0x0A]))
          @ oneshot (snd (transform f ((a @ CHR 0x0A # y1) @ [CHR 0x0A]))) y2"
    using n by (rule oneshot_last_nl)
  moreover have "transform f ((a @ CHR 0x0A # y1) @ [CHR 0x0A]) =
      (case transform f (a @ [CHR 0x0A]) of (oa, f1) \<Rightarrow>
        (case transform f1 (y1 @ [CHR 0x0A]) of (ob, f2) \<Rightarrow> (oa @ ob, f2)))"
    using transform_append_nl [of f a "y1 @ [CHR 0x0A]"] by simp
  moreover have "oneshot (snd (transform f (a @ [CHR 0x0A]))) (y1 @ CHR 0x0A # y2) =
      fst (transform (snd (transform f (a @ [CHR 0x0A]))) (y1 @ [CHR 0x0A]))
      @ oneshot (snd (transform (snd (transform f (a @ [CHR 0x0A]))) (y1 @ [CHR 0x0A]))) y2"
    using n by (rule oneshot_last_nl)
  ultimately show ?thesis
    by (simp add: y split: prod.splits)
qed

lemma stream_output_buffered:
  "CHR 0x0A \<notin> set (buffer st) \<Longrightarrow>
   stream_output st cs = oneshot (in_fence st) (buffer st @ concat cs)"
proof (induction cs arbitrary: st)
  case Nil
  then show ?case
    by (simp add: stream_output_def flush_def oneshot_no_nl split: prod.splits)
next
  case (Cons c cs)
  show ?case
  proof (cases "CHR 0x0A \<in> set (buffer st @ c)")
    case False
    then have f: "feed st c = ([], st\<lparr>buffer := buffer st @ c\<rparr>)" by (rule feed_no_nl)
    have "stream_output st (c # cs) = stream_output (st\<lparr>buffer := buffer st @ c\<rparr>) cs"
      by (simp add: stream_output_def f split: prod.splits)
    also have "\<dots> = oneshot (in_fence st) ((buffer st @ c) @ concat cs)"
      using Cons.IH [of "st\<lparr>buffer := buffer st @ c\<rparr>"] False by simp
    finally show ?thesis by simp
  next
    case True
    then obtain r t where b: "buffer st @ c = r @ CHR 0x0A # t" and n: "CHR 0x0A \<notin> set t"
      using split_list_last [of "CHR 0x0A" "buffer st @ c"] by blast
    let ?o = "fst (transform (in_fence st) (r @ [CHR 0x0A]))"
    let ?f = "snd (transform (in_fence st) (r @ [CHR 0x0A]))"
    have f: "feed st c = (?o, \<lparr>buffer = t, in_fence = ?f\<rparr>)" using b n by (rule feed_nl)
    have "stream_output st (c # cs) = ?o @ stream_output \<lparr>buffer = t, in_fence = ?f\<rparr> cs"
      by (simp add: stream_output_def f split: prod.splits)
    also have "\<dots> = ?o @ oneshot ?f (t @ concat cs)"
      using Cons.IH [of "\<lparr>buffer = t, in_fence = ?f\<rparr>"] n by simp
    also have "\<dots> = oneshot (in_fence st) (r @ CHR 0x0A # (t @ concat cs))"
      by (simp add: oneshot_nl)
    also have "\<dots> = oneshot (in_fence st) (buffer st @ concat (c # cs))"
      using b by (metis append.assoc append_Cons concat.simps(2))
    finally show ?thesis .
  qed
qed

lemma join_split_on: "join_with c (split_on c s) = s"
proof (induction s)
  case Nil
  show ?case by simp
next
  case (Cons x xs)
  show ?case
  proof (cases "x = c")
    case True
    then show ?thesis using Cons split_on_nonempty [of c xs]
      by (cases "split_on c xs") auto
  next
    case False
    then show ?thesis using Cons split_on_nonempty [of c xs]
      by (cases "split_on c xs"; cases "tl (split_on c xs)") auto
  qed
qed

lemma transform_line_fence_open:
  "\<not> startswith ''```'' (strip l) \<Longrightarrow> transform_line True l = (l, True)"
  by (simp add: transform_line_def)

lemma transform_lines_fence_open:
  "\<forall>l \<in> set ls. \<not> startswith ''```'' (strip l) \<Longrightarrow> transform_lines True ls = (ls, True)"
proof (induction ls)
  case Nil
  show ?case by simp
next
  case (Cons l ls)
  then show ?case
    by (cases ls) (simp_all add: transform_line_fence_open)
qed

text \<open>
  Claim C5. For every text and every partition of it into chunks, what a fresh
  \<open>GooseFilter\<close> emits for the chunks fed in order and a final \<open>flush\<close> is what it
  emits for the whole text fed at once and flushed: chunk boundaries never change the
  output.
\<close>

theorem chunking_invariant:
  "stream_output GooseFilter_init chunks = stream_output GooseFilter_init [concat chunks]"
  using stream_output_buffered [of GooseFilter_init chunks]
        stream_output_buffered [of GooseFilter_init "[concat chunks]"]
  by (simp add: GooseFilter_init_def)


theorem chunking_invariant_witness:
  "stream_output GooseFilter_init [''a **b'', ''** c'', [CHR 0x0A], ''--'', ''-'' @ [CHR 0x0A] @ ''*x'', ''*'']
   = stream_output GooseFilter_init [''a **b** c'' @ [CHR 0x0A] @ ''---'' @ [CHR 0x0A] @ ''*x*'']"
  using chunking_invariant [of "[''a **b'', ''** c'', [CHR 0x0A], ''--'', ''-'' @ [CHR 0x0A] @ ''*x'', ''*'']"]
  by simp

text \<open>
  Claim C6. A line whose trimmed form starts with the fence delimiter toggles the fence
  flag and is returned as it is; a line processed while the fence is open is returned as
  it is; so a text processed inside an open fence, none of whose lines is a delimiter,
  comes back unchanged whatever markup it holds.
\<close>

theorem fence_lines_unmodified:
  "(startswith ''```'' (strip line) \<longrightarrow> transform_line fence line = (line, \<not> fence))
   \<and> (fence \<longrightarrow> fst (transform_line fence line) = line)
   \<and> ((\<forall>l \<in> set (split_on (CHR 0x0A) text). \<not> startswith ''```'' (strip l))
        \<longrightarrow> transform True text = (text, True))"
  by (simp add: transform_line_def transform_def transform_lines_fence_open join_split_on Let_def)


theorem fence_lines_unmodified_witness:
  "startswith ''```'' (strip ''  ```py'')
   \<and> transform_line True ''  ```py'' = (''  ```py'', False)
   \<and> fst (transform_line True ''  ```py'') = ''  ```py''
   \<and> list_all (\<lambda>l. \<not> startswith ''```'' (strip l)) (split_on (CHR 0x0A) (''**a**'' @ [CHR 0x0A] @ ''---''))
   \<and> transform True (''**a**'' @ [CHR 0x0A] @ ''---'') = (''**a**'' @ [CHR 0x0A] @ ''---'', True)"
proof -
  have h1: "startswith ''```'' (strip ''  ```py'')"
    by (simp add: startswith_def strip_def lstrip_def rstrip_def isspace_def)
  have h3: "list_all (\<lambda>l. \<not> startswith ''```'' (strip l)) (split_on (CHR 0x0A) (''**a**'' @ [CHR 0x0A] @ ''---''))"
    by (simp add: startswith_def strip_def lstrip_def rstrip_def isspace_def)
  from h3 have h3': "\<forall>l \<in> set (split_on (CHR 0x0A) (''**a**'' @ [CHR 0x0A] @ ''---'')). \<not> startswith ''```'' (strip l)"
    by (simp only: list_all_iff)
  show ?thesis
    using h1 h3 h3' fence_lines_unmodified [of "''  ```py''" True "''**a**'' @ [CHR 0x0A] @ ''---''"]
    by simp
qed

section \<open>Properties of the qwen3 adapter\<close>

lemma startswith_append_self: "startswith p (p @ x)"
  by (simp add: startswith_def)

lemma startswith_overlap:
  assumes "startswith pat (s @ rest)" "s \<noteq> []" "hd pat \<notin> set (tl pat)"
    "rest = [] \<or> hd rest = hd pat"
  shows "startswith pat s"
proof (cases "length pat \<le> length s")
  case True
  then show ?thesis using assms(1) by (simp add: startswith_def)
next
  case False
  define r where "r = take (length pat - length s) rest"
  have p: "pat = s @ r" using assms(1) False by (simp add: startswith_def r_def)
  have "length r = length pat - length s" using p by simp
  then have rne: "r \<noteq> []" using False by auto
  then have "rest \<noteq> []" by (auto simp: r_def)
  then have "hd rest = hd pat" using assms(4) by simp
  moreover have "hd r = hd rest" using rne by (simp add: r_def hd_take)
  moreover have "hd pat = hd s" using p assms(2) by (metis hd_append2)
  moreover have "tl pat = tl s @ r" using p assms(2) by (metis tl_append2)
  ultimately have "hd pat \<in> set (tl pat)" using rne by (metis Un_iff hd_in_set set_append)
  then show ?thesis using assms(3) by simp
qed

lemma contains_Cons: "\<not> contains pat (c # p) \<Longrightarrow> \<not> startswith pat (c # p) \<and> \<not> contains pat p"
  by simp

lemma lazy_until_close:
  assumes "\<not> contains cls body" "hd cls \<notin> set (tl cls)" "cls \<noteq> []"
  shows "lazy_until dotall cls (body @ cls @ rest) = Some (body, rest)"
  using assms(1)
proof (induction body)
  case Nil
  obtain c cs where c: "cls = c # cs" using assms(3) by (cases cls) auto
  have "startswith cls (cls @ rest)" by (rule startswith_append_self)
  then show ?case using c by (simp del: startswith_def)
next
  case (Cons x xs)
  have n: "\<not> startswith cls (x # xs)" and m: "\<not> contains cls xs" using Cons.prems by simp_all
  have "\<not> startswith cls ((x # xs) @ (cls @ rest))"
  proof
    assume "startswith cls ((x # xs) @ (cls @ rest))"
    then have "startswith cls (x # xs)"
      by (rule startswith_overlap) (use assms in auto)
    then show False using n by simp
  qed
  then show ?case using Cons.IH [OF m] by (simp add: dotall_def)
qed

lemma TAG_BLOCK_match:
  assumes "wf_group1 g1" "\<not> contains cls g2" "hd cls \<notin> set (tl cls)" "cls \<noteq> []"
  shows "TAG_BLOCK opn cls (opn @ g1 @ ''>'' @ g2 @ cls @ rest) = Some ((g1, g2), rest)"
proof -
  have a: "\<forall>c \<in> set g1. c \<noteq> CHR ''>''" using assms(1) by (auto simp: wf_group1_def)
  have t: "takeWhile (\<lambda>c. c \<noteq> CHR ''>'') (g1 @ CHR ''>'' # g2 @ cls @ rest) = g1"
    using a by (simp add: takeWhile_tail)
  have d: "dropWhile (\<lambda>c. c \<noteq> CHR ''>'') (g1 @ CHR ''>'' # g2 @ cls @ rest) = CHR ''>'' # g2 @ cls @ rest"
    using a by (simp add: dropWhile_append3)
  have g: "g1 \<noteq> []" using assms(1) by (simp add: wf_group1_def)
  show ?thesis
    using lazy_until_close [OF assms(2,3,4), of rest] g
    by (simp add: TAG_BLOCK_def startswith_append_self t d Let_def)
qed

lemma TAG_BLOCK_skip:
  assumes "\<not> contains opn p" "hd opn \<notin> set (tl opn)" "rest = [] \<or> hd rest = hd opn"
  shows "re_scan (TAG_BLOCK opn cls) (p @ rest) = map Lit p @ re_scan (TAG_BLOCK opn cls) rest"
  using assms(1)
proof (induction p)
  case Nil
  show ?case by simp
next
  case (Cons c p)
  have n: "\<not> startswith opn (c # p)" and m: "\<not> contains opn p" using Cons.prems by simp_all
  have "\<not> startswith opn ((c # p) @ rest)"
  proof
    assume "startswith opn ((c # p) @ rest)"
    then have "startswith opn (c # p)"
      by (rule startswith_overlap) (use assms in auto)
    then show False using n by simp
  qed
  then have "TAG_BLOCK opn cls (c # p @ rest) = None" by (simp add: TAG_BLOCK_def)
  then show ?case using Cons.IH [OF m] by simp
qed

lemma TAG_BLOCK_scan:
  assumes "opn \<noteq> []" "hd opn \<notin> set (tl opn)" "cls \<noteq> []" "hd cls \<notin> set (tl cls)"
    and "\<not> contains opn p0"
    and "list_all (\<lambda>(g1, g2, after). wf_group1 g1 \<and> \<not> contains cls g2 \<and> \<not> contains opn after) items"
  shows "re_scan (TAG_BLOCK opn cls) (p0 @ concat (map (render_tag opn cls) items))
         = map Lit p0 @ concat (map (\<lambda>(g1, g2, after). Hit (g1, g2) # map Lit after) items)"
  using assms(5,6)
proof (induction items arbitrary: p0)
  case Nil
  then show ?case using TAG_BLOCK_skip [of opn p0 "[]" cls] assms(2) by simp
next
  case (Cons it items)
  obtain g1 g2 after where it: "it = (g1, g2, after)" by (cases it) auto
  have w: "wf_group1 g1" "\<not> contains cls g2" "\<not> contains opn after"
    and rest: "list_all (\<lambda>(g1, g2, after). wf_group1 g1 \<and> \<not> contains cls g2 \<and> \<not> contains opn after) items"
    using Cons.prems(2) it by simp_all
  let ?tail = "concat (map (render_tag opn cls) items)"
  let ?blk = "opn @ g1 @ ''>'' @ g2 @ cls @ (after @ ?tail)"
  obtain c cs where c: "opn = c # cs" using assms(1) by (cases opn) auto
  have skip: "re_scan (TAG_BLOCK opn cls) (p0 @ ?blk) = map Lit p0 @ re_scan (TAG_BLOCK opn cls) ?blk"
    by (rule TAG_BLOCK_skip) (use Cons.prems(1) assms(2) c in auto)
  have m: "TAG_BLOCK opn cls ?blk = Some ((g1, g2), after @ ?tail)"
    by (rule TAG_BLOCK_match) (use w assms in auto)
  have b: "?blk = c # (cs @ g1 @ ''>'' @ g2 @ cls @ (after @ ?tail))" using c by simp
  have "re_scan (TAG_BLOCK opn cls) ?blk = Hit (g1, g2) # re_scan (TAG_BLOCK opn cls) (after @ ?tail)"
    using m unfolding b by (subst re_scan.simps(2)) simp
  then show ?case using skip Cons.IH [OF w(3) rest]
    by (simp add: it render_tag_def)
qed

lemma finditer_Nil: "finditer [] = []"
  by (simp add: finditer_def)

lemma sub_with_Nil: "sub_with r [] = []"
  by (simp add: sub_with_def)

lemma finditer_append: "finditer (ts @ us) = finditer ts @ finditer us"
  by (simp add: finditer_def)

lemma finditer_Lits: "finditer (map Lit p) = []"
  by (induction p) (simp_all add: finditer_def)

lemma finditer_Hit: "finditer (Hit g # ts) = g # finditer ts"
  by (simp add: finditer_def)

lemma sub_with_append: "sub_with r (ts @ us) = sub_with r ts @ sub_with r us"
  by (simp add: sub_with_def)

lemma sub_with_Lits: "sub_with r (map Lit p) = p"
  by (induction p) (simp_all add: sub_with_def)

lemma sub_with_Hit: "sub_with r (Hit g # ts) = r g @ sub_with r ts"
  by (simp add: sub_with_def)

lemma finditer_items:
  "finditer (concat (map (\<lambda>(g1, g2, after). Hit (g1, g2) # map Lit after) items))
   = map (\<lambda>(g1, g2, after). (g1, g2)) items"
  by (induction items) (auto simp: finditer_append finditer_Lits finditer_Hit finditer_Nil)

lemma finditer_tokens:
  "finditer (map Lit p0 @ concat (map (\<lambda>(g1, g2, after). Hit (g1, g2) # map Lit after) items))
   = map (\<lambda>(g1, g2, after). (g1, g2)) items"
  by (simp add: finditer_append finditer_Lits finditer_items)

lemma sub_items:
  "sub_with (\<lambda>g. []) (concat (map (\<lambda>(g1, g2, after). Hit (g1, g2) # map Lit after) items))
   = concat (map (\<lambda>(g1, g2, after). after) items)"
  by (induction items) (auto simp: sub_with_append sub_with_Lits sub_with_Hit sub_with_Nil)

lemma sub_tokens:
  "sub_with (\<lambda>g. []) (map Lit p0 @ concat (map (\<lambda>(g1, g2, after). Hit (g1, g2) # map Lit after) items))
   = p0 @ concat (map (\<lambda>(g1, g2, after). after) items)"
  by (simp add: sub_with_append sub_with_Lits sub_items)

lemma parse_arguments_body:
  assumes "\<not> contains ''<parameter='' pre" "list_all wf_param ps"
  shows "parse_arguments (render_body pre ps) = expected_arguments ps"
proof -
  have "list_all (\<lambda>(g1, g2, after). wf_group1 g1 \<and> \<not> contains ''</parameter>'' g2
            \<and> \<not> contains ''<parameter='' after) ps"
    using assms(2) by (simp add: wf_param_def)
  then have "re_scan PARAMETER (render_body pre ps)
      = map Lit pre @ concat (map (\<lambda>(g1, g2, after). Hit (g1, g2) # map Lit after) ps)"
    unfolding PARAMETER_def render_body_def
    by (intro TAG_BLOCK_scan) (use assms(1) in simp_all)
  then have "parse_arguments (render_body pre ps)
      = foldl (\<lambda>args (k, v). AList.update (strip k) v args) [] (map (\<lambda>(g1, g2, after). (g1, g2)) ps)"
    by (simp only: parse_arguments_def finditer_tokens)
  then show ?thesis
    by (simp add: expected_arguments_def foldl_map split_def)
qed

lemma parse_xml_tool_calls_hermes:
  assumes "\<not> contains ''<function='' p0" "list_all wf_block bs"
  shows "parse_xml_tool_calls (hermes_text p0 bs)
         = (map (\<lambda>(n, pre, ps, after). (strip n, expected_arguments ps)) bs, strip (prose p0 bs))"
proof -
  let ?items = "map (\<lambda>(n, pre, ps, after). (n, render_body pre ps, after)) bs"
  have t: "hermes_text p0 bs = p0 @ concat (map (render_tag ''<function='' ''</function>'') ?items)"
    by (simp add: hermes_text_def render_block_def comp_def split_def)
  have "list_all (\<lambda>(g1, g2, after). wf_group1 g1 \<and> \<not> contains ''</function>'' g2
            \<and> \<not> contains ''<function='' after) ?items"
    using assms(2) by (simp add: list_all_iff wf_block_def split_def)
  then have s: "re_scan FUNCTION_BLOCK (hermes_text p0 bs)
      = map Lit p0 @ concat (map (\<lambda>(g1, g2, after). Hit (g1, g2) # map Lit after) ?items)"
    unfolding FUNCTION_BLOCK_def t
    by (intro TAG_BLOCK_scan) (use assms(1) in simp_all)
  have a: "map (\<lambda>(name, body). (strip name, parse_arguments body)) (map (\<lambda>(g1, g2, after). (g1, g2)) ?items)
        = map (\<lambda>(n, pre, ps, after). (strip n, expected_arguments ps)) bs"
    using assms(2)
    by (auto simp: list_all_iff wf_block_def parse_arguments_body)
  have p: "p0 @ concat (map (\<lambda>(g1, g2, after). after) ?items) = prose p0 bs"
    by (simp add: prose_def comp_def split_def)
  show ?thesis
    by (simp only: parse_xml_tool_calls_def s finditer_tokens sub_tokens a p)
qed

lemma strip_Nil: "strip [] = []"
  by (simp add: strip_def lstrip_def rstrip_def)

lemma strip_think_tags_Nil: "strip_think_tags [] = []"
  by (simp add: strip_think_tags_def sub_with_Nil strip_Nil)

lemma parse_xml_tool_calls_Nil: "parse_xml_tool_calls [] = ([], [])"
  by (simp add: parse_xml_tool_calls_def sub_with_Nil finditer_Nil strip_Nil)

lemma store_copy_update:
  "(h @ [m])[length h := f ((h @ [m]) ! length h)] = h @ [f m]"
  by simp

lemma normalize_structured:
  assumes "get_tool_calls (h ! a) \<noteq> []"
  shows "normalize_tool_calls h a v =
           (h @ [(h ! a)\<lparr>tool_calls := Val (filter_hallucinated (get_tool_calls (h ! a)) v),
                         content := Val (strip_think_tags (get_content (h ! a)))\<rparr>], length h)"
  using assms
  by (simp add: normalize_tool_calls_def dict_copy_def set_tool_calls_def set_content_def Let_def)

lemma normalize_recovered:
  assumes "get_tool_calls (h ! a) = []"
    and "recover (fst (parse_xml_tool_calls (strip_think_tags (get_content (h ! a))))) v \<noteq> []"
  shows "normalize_tool_calls h a v =
           (h @ [(h ! a)\<lparr>tool_calls := Val (recover (fst (parse_xml_tool_calls (strip_think_tags (get_content (h ! a))))) v),
                         content := Val (snd (parse_xml_tool_calls (strip_think_tags (get_content (h ! a)))))\<rparr>], length h)"
proof -
  have "get_content (h ! a) \<noteq> []"
    using assms(2) by (auto simp: strip_think_tags_Nil parse_xml_tool_calls_Nil recover_def)
  then show ?thesis using assms
    by (simp add: normalize_tool_calls_def dict_copy_def set_tool_calls_def set_content_def Let_def)
qed

lemma normalize_plain:
  assumes "get_tool_calls (h ! a) = []"
    and "recover (fst (parse_xml_tool_calls (strip_think_tags (get_content (h ! a))))) v = []"
  shows "normalize_tool_calls h a v =
           (if strip_think_tags (get_content (h ! a)) \<noteq> get_content (h ! a)
            then (h @ [(h ! a)\<lparr>content := Val (strip_think_tags (get_content (h ! a)))\<rparr>], length h)
            else (h, a))"
  using assms
  by (simp add: normalize_tool_calls_def dict_copy_def set_tool_calls_def set_content_def Let_def
      strip_think_tags_Nil)

lemma recovered_calls:
  assumes "get_tool_calls (h ! a) = []"
  shows "get_tool_calls (returned (normalize_tool_calls h a v))
         = recover (fst (parse_xml_tool_calls (strip_think_tags (get_content (h ! a))))) v"
proof (cases "recover (fst (parse_xml_tool_calls (strip_think_tags (get_content (h ! a))))) v = []")
  case True
  show ?thesis using assms True
    by (simp add: normalize_plain [OF assms True] returned_def get_tool_calls_def)
next
  case False
  show ?thesis
    by (simp add: normalize_recovered [OF assms False] returned_def get_tool_calls_def)
qed

lemma hermes_text_nonempty: "bs \<noteq> [] \<Longrightarrow> hermes_text p0 bs \<noteq> []"
  by (cases bs) (auto simp: hermes_text_def render_block_def render_tag_def)

lemma nat_of_str_snoc: "nat_of_str (s @ [c]) = 10 * nat_of_str s + (of_char c - 48)"
  by (simp add: nat_of_str_def)

lemma nat_of_str_of_nat: "nat_of_str (str_of_nat n) = n"
proof (induction n rule: str_of_nat.induct)
  case (1 n)
  show ?case
  proof (cases "n < 10")
    case True
    have "str_of_nat n = [char_of (48 + n)]"
      using True by (subst str_of_nat.simps) simp
    then show ?thesis using True by (simp add: nat_of_str_def)
  next
    case False
    have s: "str_of_nat n = str_of_nat (n div 10) @ [char_of (48 + n mod 10)]"
      using False by (subst str_of_nat.simps) simp
    have m: "(48 + n mod 10) mod 256 = 48 + n mod 10" by simp
    have "nat_of_str (str_of_nat n) = 10 * (n div 10) + n mod 10"
      using "1.IH" [OF False] by (simp add: s nat_of_str_snoc m)
    then show ?thesis by simp
  qed
qed

lemma str_of_nat_inj: "inj str_of_nat"
  by (rule inj_on_inverseI [where g = nat_of_str]) (simp add: nat_of_str_of_nat)

lemma recover_ai_ids:
  "map tc_id (recover_ai calls parsed)
   = map tc_id calls @ map (\<lambda>i. ''recovered_'' @ str_of_nat i) [length calls ..< length calls + length parsed]"
proof (induction parsed arbitrary: calls)
  case Nil
  show ?case by simp
next
  case (Cons p parsed)
  obtain name args where p: "p = (name, args)" by (cases p) auto
  show ?case using Cons.IH [of "calls @ [\<lparr>tc_name = name, tc_args = args, tc_id = ''recovered_'' @ str_of_nat (length calls)\<rparr>]"]
    by (simp add: p upt_conv_Cons del: upt_Suc)
qed

lemma recover_ai_length: "length (recover_ai calls parsed) = length calls + length parsed"
  using arg_cong [OF recover_ai_ids [of calls parsed], of length] by simp

lemma recovered_ids_distinct: "distinct (map (\<lambda>i. ''recovered_'' @ str_of_nat i) [0 ..< n])"
proof -
  have "inj (\<lambda>i. ''recovered_'' @ str_of_nat i)"
    using str_of_nat_inj by (auto simp: inj_def)
  then show ?thesis by (simp add: distinct_map inj_on_def inj_def)
qed

text \<open>
  Claim C1, as amended. Take a message with no structured tool calls whose content, once
  the adapter has removed the \<open><think>\<close> spans and trimmed the result, is prose
  interleaved with N >= 1 well-formed blocks, the trimmed name of each being a valid name.
  Then \<open>normalize_tool_calls\<close> returns exactly the N calls in source order, each with
  its name trimmed and with the arguments of its children (key trimmed, value as it
  stands in the stripped content), and the content it returns is the prose with the
  blocks taken out, trimmed of leading and trailing whitespace.
\<close>

theorem hermes_recovery:
  assumes "a < length h"
    and "get_tool_calls (h ! a) = []"
    and "strip_think_tags (get_content (h ! a)) = hermes_text p0 bs"
    and "bs \<noteq> []"
    and "\<not> contains ''<function='' p0"
    and "list_all wf_block bs"
    and "list_all (\<lambda>(n, pre, ps, after). strip n \<in> valid_names) bs"
  shows "get_tool_calls (returned (normalize_tool_calls h a valid_names)) = map expected_call bs
         \<and> content (returned (normalize_tool_calls h a valid_names)) = Val (strip (prose p0 bs))"
proof -
  let ?parsed = "parse_xml_tool_calls (strip_think_tags (get_content (h ! a)))"
  have p: "?parsed = (map (\<lambda>(n, pre, ps, after). (strip n, expected_arguments ps)) bs, strip (prose p0 bs))"
    unfolding assms(3) using assms(5,6) by (rule parse_xml_tool_calls_hermes)
  have "filter (\<lambda>(name, args). name \<in> valid_names) (map (\<lambda>(n, pre, ps, after). (strip n, expected_arguments ps)) bs)
        = map (\<lambda>(n, pre, ps, after). (strip n, expected_arguments ps)) bs"
    using assms(7) by (auto simp: list_all_iff filter_id_conv)
  then have r: "recover (fst ?parsed) valid_names = map expected_call bs"
    by (simp add: p recover_def expected_call_def split_def)
  then have ne: "recover (fst ?parsed) valid_names \<noteq> []" using assms(4) by simp
  have s: "snd ?parsed = strip (prose p0 bs)" by (simp add: p)
  show ?thesis
    unfolding normalize_recovered [OF assms(2) ne] r s
    by (simp add: returned_def get_tool_calls_def)
qed

theorem hermes_recovery_witness:
  "0 < length [demo_message]
   \<and> get_tool_calls ([demo_message] ! 0) = []
   \<and> strip_think_tags (get_content ([demo_message] ! 0)) = hermes_text ''Let me search. '' demo_blocks
   \<and> demo_blocks \<noteq> []
   \<and> \<not> contains ''<function='' ''Let me search. ''
   \<and> list_all wf_block demo_blocks
   \<and> list_all (\<lambda>(n, pre, ps, after). strip n \<in> {''web_search'', ''read_file''}) demo_blocks
   \<and> get_tool_calls (returned (normalize_tool_calls [demo_message] 0 {''web_search'', ''read_file''}))
       = [\<lparr>call_id = None, fn_name = ''web_search'', fn_arguments = [(''query'', ''python docs''), (''n'', ''3'')]\<rparr>,
          \<lparr>call_id = None, fn_name = ''read_file'', fn_arguments = []\<rparr>]
   \<and> content (returned (normalize_tool_calls [demo_message] 0 {''web_search'', ''read_file''}))
       = Val ''Let me search.  Done.''"
proof -
  have h1: "0 < length [demo_message]" by simp
  have h2: "get_tool_calls ([demo_message] ! 0) = []" by code_simp
  have h3: "strip_think_tags (get_content ([demo_message] ! 0)) = hermes_text ''Let me search. '' demo_blocks"
    by code_simp
  have h4: "demo_blocks \<noteq> []" by code_simp
  have h5: "\<not> contains ''<function='' ''Let me search. ''" by code_simp
  have h6: "list_all wf_block demo_blocks" by code_simp
  have h7: "list_all (\<lambda>(n, pre, ps, after). strip n \<in> {''web_search'', ''read_file''}) demo_blocks"
    by code_simp
  have e1: "map expected_call demo_blocks
       = [\<lparr>call_id = None, fn_name = ''web_search'', fn_arguments = [(''query'', ''python docs''), (''n'', ''3'')]\<rparr>,
          \<lparr>call_id = None, fn_name = ''read_file'', fn_arguments = []\<rparr>]" by code_simp
  have e2: "strip (prose ''Let me search. '' demo_blocks) = ''Let me search.  Done.''" by code_simp
  show ?thesis
    using hermes_recovery [OF h1 h2 h3 h4 h5 h6 h7] h1 h2 h3 h4 h5 h6 h7
    unfolding e1 e2 by blast
qed

text \<open>
  The claim as it is written fails on this message: the block is well formed and its name
  is valid, but the span inside the value is removed before the scan, so the value is not
  taken as it stands, and the prose around the block comes back trimmed.
\<close>

theorem hermes_recovery_counterexample:
  "get_tool_calls think_in_value = []
   \<and> get_content think_in_value = hermes_text '' x '' [(''f'', [], [(''k'', ''a<think>b</think>c'', [])], [])]
   \<and> wf_block (''f'', [], [(''k'', ''a<think>b</think>c'', [])], [])
   \<and> strip ''f'' \<in> {''f''}
   \<and> get_tool_calls (returned (normalize_tool_calls [think_in_value] 0 {''f''}))
       = [\<lparr>call_id = None, fn_name = ''f'', fn_arguments = [(''k'', ''ac'')]\<rparr>]
   \<and> ''ac'' \<noteq> ''a<think>b</think>c''
   \<and> content (returned (normalize_tool_calls [think_in_value] 0 {''f''})) = Val ''x''
   \<and> ''x'' \<noteq> prose '' x '' [(''f'', [], [(''k'', ''a<think>b</think>c'', [])], [])]"
  by code_simp

text \<open>
  Claim C2, as amended. When the valid-name set is not empty, or when the message has no
  structured calls (so that the calls of the result are recovered ones), every tool call
  of the normalized message has a name of the valid-name set.
\<close>

theorem valid_names_only:
  assumes "a < length h" and "valid_names \<noteq> {} \<or> get_tool_calls (h ! a) = []"
  shows "list_all (\<lambda>c. fn_name c \<in> valid_names)
           (get_tool_calls (returned (normalize_tool_calls h a valid_names)))"
proof (cases "get_tool_calls (h ! a) = []")
  case True
  show ?thesis
    by (simp add: recovered_calls [OF True] recover_def list_all_iff split_def)
next
  case False
  then have "valid_names \<noteq> {}" using assms(2) by simp
  then show ?thesis
    by (simp add: normalize_structured [OF False] returned_def get_tool_calls_def
        filter_hallucinated_def list_all_iff)
qed

theorem valid_names_only_witness:
  "0 < length [structured_message]
   \<and> {''web_search''} \<noteq> ({} :: string set)
   \<and> get_tool_calls (returned (normalize_tool_calls [structured_message] 0 {''web_search''}))
       = [\<lparr>call_id = Some ''1'', fn_name = ''web_search'', fn_arguments = [(''query'', ''x'')]\<rparr>]
   \<and> list_all (\<lambda>c. fn_name c \<in> {''web_search''})
        (get_tool_calls (returned (normalize_tool_calls [structured_message] 0 {''web_search''})))"
proof -
  have h1: "0 < length [structured_message]" by simp
  have h2: "{''web_search''} \<noteq> ({} :: string set)" by simp
  have e: "get_tool_calls (returned (normalize_tool_calls [structured_message] 0 {''web_search''}))
       = [\<lparr>call_id = Some ''1'', fn_name = ''web_search'', fn_arguments = [(''query'', ''x'')]\<rparr>]"
    by code_simp
  show ?thesis
    using valid_names_only [of 0 "[structured_message]" "{''web_search''}"] h1 h2 e by simp
qed

text \<open>
  With an empty valid-name set the filter of structured calls is a no-op, so a call whose
  name is outside the set is in the result.
\<close>

theorem valid_names_only_counterexample:
  "get_tool_calls (returned (normalize_tool_calls [structured_message] 0 {}))
     = [\<lparr>call_id = Some ''1'', fn_name = ''web_search'', fn_arguments = [(''query'', ''x'')]\<rparr>,
        \<lparr>call_id = Some ''2'', fn_name = ''invented_tool'', fn_arguments = []\<rparr>]
   \<and> ''invented_tool'' \<notin> ({} :: string set)"
  by code_simp

text \<open>
  Claim C3, as amended. With an empty valid-name set every structured call survives
  normalization unchanged; a message without structured calls comes back without tool
  calls, since a recovered call is kept only when its name is in the set.
\<close>

theorem empty_valid_names:
  assumes "a < length h"
  shows "(get_tool_calls (h ! a) \<noteq> [] \<longrightarrow>
            tool_calls (returned (normalize_tool_calls h a {})) = Val (get_tool_calls (h ! a)))
       \<and> (get_tool_calls (h ! a) = [] \<longrightarrow>
            get_tool_calls (returned (normalize_tool_calls h a {})) = [])"
proof (cases "get_tool_calls (h ! a) = []")
  case True
  then show ?thesis by (simp add: recovered_calls [OF True] recover_def)
next
  case False
  then show ?thesis
    by (simp add: normalize_structured [OF False] returned_def filter_hallucinated_def)
qed

theorem empty_valid_names_witness:
  "0 < length [structured_message, xml_message]
   \<and> get_tool_calls ([structured_message, xml_message] ! 0) \<noteq> []
   \<and> tool_calls (returned (normalize_tool_calls [structured_message, xml_message] 0 {}))
       = Val (get_tool_calls ([structured_message, xml_message] ! 0))
   \<and> get_tool_calls ([structured_message, xml_message] ! 1) = []
   \<and> get_tool_calls (returned (normalize_tool_calls [structured_message, xml_message] 1 {})) = []"
proof -
  have h1: "0 < length [structured_message, xml_message]" by simp
  have h1': "1 < length [structured_message, xml_message]" by simp
  have h2: "get_tool_calls ([structured_message, xml_message] ! 0) \<noteq> []" by code_simp
  have h3: "get_tool_calls ([structured_message, xml_message] ! 1) = []" by code_simp
  show ?thesis
    using empty_valid_names [OF h1] empty_valid_names [OF h1'] h1 h2 h3 by blast
qed

text \<open>
  A call that the scan finds in the content does not survive an empty valid-name set:
  the message is returned as it was given, without tool calls.
\<close>

theorem empty_valid_names_counterexample:
  "get_tool_calls xml_message = []
   \<and> fst (parse_xml_tool_calls (strip_think_tags (get_content xml_message))) = [(''web_search'', [(''query'', ''x'')])]
   \<and> normalize_tool_calls [xml_message] 0 {} = ([xml_message], 0)
   \<and> get_tool_calls (returned (normalize_tool_calls [xml_message] 0 {})) = []"
  by code_simp

text \<open>
  Claim C8, as amended. On the agent path (\<open>normalize_ai_message\<close>) the calls recovered
  from the content get the ids \<open>recovered_0\<close>, \<open>recovered_1\<close>, ... in source order,
  which are distinct within the message. On the proxy path (\<open>normalize_tool_calls\<close>) a
  recovered call has the runtime's shape and carries no id.
\<close>

theorem recovered_ids:
  "(ai_tool_calls msg = [] \<and> normalize_ai_message msg = New m' \<longrightarrow>
      map tc_id (ai_tool_calls m') = map (\<lambda>i. ''recovered_'' @ str_of_nat i) [0 ..< length (ai_tool_calls m')]
      \<and> distinct (map tc_id (ai_tool_calls m')))
   \<and> (get_tool_calls (h ! a) = [] \<longrightarrow>
        list_all (\<lambda>c. call_id c = None) (get_tool_calls (returned (normalize_tool_calls h a valid_names))))"
proof -
  have ai: "map tc_id (ai_tool_calls m') = map (\<lambda>i. ''recovered_'' @ str_of_nat i) [0 ..< length (ai_tool_calls m')]
      \<and> distinct (map tc_id (ai_tool_calls m'))"
    if "ai_tool_calls msg = []" "normalize_ai_message msg = New m'"
  proof -
    let ?parsed = "fst (parse_xml_tool_calls (strip_think_tags (ai_content msg)))"
    have "ai_tool_calls m' = [] \<or> ai_tool_calls m' = recover_ai [] ?parsed"
      using that by (auto simp: normalize_ai_message_def Let_def split: if_splits)
    then show ?thesis
    proof
      assume "ai_tool_calls m' = []"
      then show ?thesis by simp
    next
      assume r: "ai_tool_calls m' = recover_ai [] ?parsed"
      have "map tc_id (ai_tool_calls m') = map (\<lambda>i. ''recovered_'' @ str_of_nat i) [0 ..< length ?parsed]"
        using recover_ai_ids [of "[]" ?parsed] by (simp add: r)
      moreover have "length (ai_tool_calls m') = length ?parsed"
        using recover_ai_length [of "[]" ?parsed] by (simp add: r)
      ultimately show ?thesis using recovered_ids_distinct [of "length ?parsed"] by simp
    qed
  qed
  have px: "list_all (\<lambda>c. call_id c = None) (get_tool_calls (returned (normalize_tool_calls h a valid_names)))"
    if t: "get_tool_calls (h ! a) = []"
    by (simp add: recovered_calls [OF t] recover_def list_all_iff split_def)
  show ?thesis using ai px by blast
qed

theorem recovered_ids_witness:
  "ai_tool_calls xml_ai_message = []
   \<and> normalize_ai_message xml_ai_message
       = New \<lparr>ai_content = [], ai_tool_calls =
           [\<lparr>tc_name = ''web_search'', tc_args = [(''query'', ''a'')], tc_id = ''recovered_0''\<rparr>,
            \<lparr>tc_name = ''read_file'', tc_args = [(''path'', ''/b'')], tc_id = ''recovered_1''\<rparr>]\<rparr>
   \<and> distinct [''recovered_0'', ''recovered_1'']
   \<and> get_tool_calls ([xml_message] ! 0) = []
   \<and> list_all (\<lambda>c. call_id c = None) (get_tool_calls (returned (normalize_tool_calls [xml_message] 0 {''web_search''})))"
proof -
  have h1: "ai_tool_calls xml_ai_message = []" by code_simp
  have h2: "normalize_ai_message xml_ai_message
       = New \<lparr>ai_content = [], ai_tool_calls =
           [\<lparr>tc_name = ''web_search'', tc_args = [(''query'', ''a'')], tc_id = ''recovered_0''\<rparr>,
            \<lparr>tc_name = ''read_file'', tc_args = [(''path'', ''/b'')], tc_id = ''recovered_1''\<rparr>]\<rparr>"
    by code_simp
  have h3: "get_tool_calls ([xml_message] ! 0) = []" by code_simp
  note t = recovered_ids [of xml_ai_message "\<lparr>ai_content = [], ai_tool_calls =
           [\<lparr>tc_name = ''web_search'', tc_args = [(''query'', ''a'')], tc_id = ''recovered_0''\<rparr>,
            \<lparr>tc_name = ''read_file'', tc_args = [(''path'', ''/b'')], tc_id = ''recovered_1''\<rparr>]\<rparr>"
            "[xml_message]" 0 "{''web_search''}"]
  have "distinct (map tc_id (ai_tool_calls \<lparr>ai_content = [], ai_tool_calls =
           [\<lparr>tc_name = ''web_search'', tc_args = [(''query'', ''a'')], tc_id = ''recovered_0''\<rparr>,
            \<lparr>tc_name = ''read_file'', tc_args = [(''path'', ''/b'')], tc_id = ''recovered_1''\<rparr>]\<rparr>))"
    using t h1 h2 by blast
  then have d: "distinct [''recovered_0'', ''recovered_1'']" by simp
  have l: "list_all (\<lambda>c. call_id c = None) (get_tool_calls (returned (normalize_tool_calls [xml_message] 0 {''web_search''})))"
    using t h3 by blast
  show ?thesis using h1 h2 h3 d l by blast
qed

text \<open>The call recovered on the proxy path has no id.\<close>

theorem recovered_ids_counterexample:
  "get_tool_calls xml_message = []
   \<and> get_tool_calls (returned (normalize_tool_calls [xml_message] 0 {''web_search''}))
       = [\<lparr>call_id = None, fn_name = ''web_search'', fn_arguments = [(''query'', ''x'')]\<rparr>]"
  by code_simp

text \<open>
  Claim C10. \<open>normalize_tool_calls\<close> never changes the dict it is given: every object of
  the store, the input among them, is afterwards what it was before. When no transform
  applies the input object itself is returned and the store is unchanged; otherwise the
  result is a dict at a fresh address, and the entries it was not assigned are those of
  the input.
\<close>

theorem input_not_mutated:
  assumes "a < length h"
  shows "fst (normalize_tool_calls h a valid_names) ! a = h ! a
       \<and> take (length h) (fst (normalize_tool_calls h a valid_names)) = h
       \<and> (if no_transform (h ! a) valid_names
          then normalize_tool_calls h a valid_names = (h, a)
          else snd (normalize_tool_calls h a valid_names) = length h
             \<and> fst (normalize_tool_calls h a valid_names)
                 = h @ [returned (normalize_tool_calls h a valid_names)]
             \<and> ollama_msg.more (returned (normalize_tool_calls h a valid_names)) = ollama_msg.more (h ! a))"
proof (cases "get_tool_calls (h ! a) = []")
  case False
  then show ?thesis using assms
    by (simp add: normalize_structured [OF False] returned_def no_transform_def nth_append)
next
  case True
  show ?thesis
  proof (cases "recover (fst (parse_xml_tool_calls (strip_think_tags (get_content (h ! a))))) valid_names = []")
    case False
    then show ?thesis using assms True
      by (simp add: normalize_recovered [OF True False] returned_def no_transform_def nth_append)
  next
    case e: True
    show ?thesis using assms True e
      by (simp add: normalize_plain [OF True e] returned_def no_transform_def nth_append)
  qed
qed

theorem input_not_mutated_witness:
  "0 < length [xml_message, plain_message]
   \<and> \<not> no_transform ([xml_message, plain_message] ! 0) {''web_search''}
   \<and> normalize_tool_calls [xml_message, plain_message] 0 {''web_search''}
       = ([xml_message, plain_message,
           \<lparr>content = Val [], tool_calls = Val [\<lparr>call_id = None, fn_name = ''web_search'', fn_arguments = [(''query'', ''x'')]\<rparr>]\<rparr>], 2)
   \<and> no_transform ([xml_message, plain_message] ! 1) {''web_search''}
   \<and> normalize_tool_calls [xml_message, plain_message] 1 {''web_search''} = ([xml_message, plain_message], 1)"
proof -
  have h0: "0 < length [xml_message, plain_message]" by simp
  have h1: "1 < length [xml_message, plain_message]" by simp
  have n0: "\<not> no_transform ([xml_message, plain_message] ! 0) {''web_search''}" by code_simp
  have n1: "no_transform ([xml_message, plain_message] ! 1) {''web_search''}" by code_simp
  have r: "returned (normalize_tool_calls [xml_message, plain_message] 0 {''web_search''})
      = \<lparr>content = Val [], tool_calls = Val [\<lparr>call_id = None, fn_name = ''web_search'', fn_arguments = [(''query'', ''x'')]\<rparr>]\<rparr>"
    by code_simp
  have a: "normalize_tool_calls [xml_message, plain_message] 0 {''web_search''}
       = ([xml_message, plain_message] @ [returned (normalize_tool_calls [xml_message, plain_message] 0 {''web_search''})], 2)"
    using input_not_mutated [OF h0, of "{''web_search''}"] n0
    by (simp add: prod_eq_iff)
  have b: "normalize_tool_calls [xml_message, plain_message] 1 {''web_search''} = ([xml_message, plain_message], 1)"
    using input_not_mutated [OF h1, of "{''web_search''}"] n1 by simp
  show ?thesis using h0 n0 n1 a b unfolding r by simp
qed

section \<open>Properties of the agent graph\<close>

lemma caught_simps:
  "caught JSONDecodeError" "caught ValueError" "\<not> caught TypeError" "\<not> caught AttributeError"
  "\<not> caught OverflowError" "\<not> caught RequestError"
  by (simp_all add: caught_def)

text \<open>
  Claim C7, as amended. On a response that is not valid JSON the interpreter node
  returns the default classification (intent question, confidence 0.5, no entities, no
  URL), and so it does on a JSON object whose confidence is a string that does not read
  as a number. On a JSON object whose confidence converts, every missing key takes its
  own default and every value that is present is returned as it is, with no check of its
  range; an object without any of the keys gives the default classification.
\<close>

theorem interpreter_defaults:
  "(json_loads lib (strip_code_fence response) = Inl JSONDecodeError
      \<longrightarrow> interpreter_node lib response = Inr default_intent)
   \<and> (json_loads lib (strip_code_fence response) = Inr (JObj kvs)
        \<and> py_float lib (dict_get kvs ''confidence'' (JFloat (Finite (1/2)))) = Inl ValueError
      \<longrightarrow> interpreter_node lib response = Inr default_intent)
   \<and> (json_loads lib (strip_code_fence response) = Inr (JObj kvs)
        \<and> py_float lib (dict_get kvs ''confidence'' (JFloat (Finite (1/2)))) = Inr c
      \<longrightarrow> interpreter_node lib response =
            Inr \<lparr>intent_type = dict_get kvs ''intent'' (JStr ''question''),
                 confidence = c,
                 entities = dict_get kvs ''entities'' (JArr []),
                 inferred_url = dict_get kvs ''inferred_url'' JNull\<rparr>)
   \<and> (json_loads lib (strip_code_fence response) = Inr (JObj [])
      \<longrightarrow> interpreter_node lib response = Inr default_intent)"
  by (simp add: interpreter_node_def parse_intent_def caught_simps dict_get_def default_intent_def)

theorem interpreter_defaults_witness:
  \<open>json_loads demo_lib (strip_code_fence ''not json'') = Inl JSONDecodeError
   \<and> interpreter_node demo_lib ''not json'' = Inr default_intent
   \<and> json_loads demo_lib (strip_code_fence ''{"intent": "learning", "confidence": "high"}'')
       = Inr (JObj [(''intent'', JStr ''learning''), (''confidence'', JStr ''high'')])
   \<and> py_float demo_lib (dict_get [(''intent'', JStr ''learning''), (''confidence'', JStr ''high'')] ''confidence'' (JFloat (Finite (1/2)))) = Inl ValueError
   \<and> interpreter_node demo_lib ''{"intent": "learning", "confidence": "high"}'' = Inr default_intent
   \<and> json_loads demo_lib (strip_code_fence ''{"intent": "banana", "confidence": 7}'')
       = Inr (JObj [(''intent'', JStr ''banana''), (''confidence'', JInt 7)])
   \<and> py_float demo_lib (dict_get [(''intent'', JStr ''banana''), (''confidence'', JInt 7)] ''confidence'' (JFloat (Finite (1/2)))) = Inr (Finite 7)
   \<and> interpreter_node demo_lib ''{"intent": "banana", "confidence": 7}''
       = Inr \<lparr>intent_type = JStr ''banana'', confidence = Finite 7, entities = JArr [], inferred_url = JNull\<rparr>\<close>
proof -
  have s1: "strip_code_fence ''not json'' = ''not json''" by code_simp
  have s2: \<open>strip_code_fence ''{"intent": "learning", "confidence": "high"}'' = ''{"intent": "learning", "confidence": "high"}''\<close>
    by code_simp
  have s3: \<open>strip_code_fence ''{"intent": "banana", "confidence": 7}'' = ''{"intent": "banana", "confidence": 7}''\<close>
    by code_simp
  have h1: "json_loads demo_lib (strip_code_fence ''not json'') = Inl JSONDecodeError"
    unfolding s1 by (simp add: demo_lib_def)
  have h2: \<open>json_loads demo_lib (strip_code_fence ''{"intent": "learning", "confidence": "high"}'')
       = Inr (JObj [(''intent'', JStr ''learning''), (''confidence'', JStr ''high'')])\<close>
    unfolding s2 by (simp add: demo_lib_def)
  have h2': "py_float demo_lib (dict_get [(''intent'', JStr ''learning''), (''confidence'', JStr ''high'')] ''confidence'' (JFloat (Finite (1/2)))) = Inl ValueError"
    by (simp add: demo_lib_def dict_get_def)
  have h3: \<open>json_loads demo_lib (strip_code_fence ''{"intent": "banana", "confidence": 7}'')
       = Inr (JObj [(''intent'', JStr ''banana''), (''confidence'', JInt 7)])\<close>
    unfolding s3 by (simp add: demo_lib_def)
  have h3': "py_float demo_lib (dict_get [(''intent'', JStr ''banana''), (''confidence'', JInt 7)] ''confidence'' (JFloat (Finite (1/2)))) = Inr (Finite 7)"
    by (simp add: demo_lib_def dict_get_def)
  have d: "dict_get [(''intent'', JStr ''banana''), (''confidence'', JInt 7)] ''intent'' (JStr ''question'') = JStr ''banana''"
     "dict_get [(''intent'', JStr ''banana''), (''confidence'', JInt 7)] ''entities'' (JArr []) = JArr []"
     "dict_get [(''intent'', JStr ''banana''), (''confidence'', JInt 7)] ''inferred_url'' JNull = JNull"
    by (simp_all add: dict_get_def)
  have a: "interpreter_node demo_lib ''not json'' = Inr default_intent"
    using interpreter_defaults [of demo_lib "''not json''"] h1 by blast
  have b: \<open>interpreter_node demo_lib ''{"intent": "learning", "confidence": "high"}'' = Inr default_intent\<close>
    using interpreter_defaults [of demo_lib _ "[(''intent'', JStr ''learning''), (''confidence'', JStr ''high'')]"] h2 h2' by blast
  have c: \<open>interpreter_node demo_lib ''{"intent": "banana", "confidence": 7}''
       = Inr \<lparr>intent_type = JStr ''banana'', confidence = Finite 7, entities = JArr [], inferred_url = JNull\<rparr>\<close>
    using interpreter_defaults [of demo_lib _ "[(''intent'', JStr ''banana''), (''confidence'', JInt 7)]" "Finite 7"] h3 h3'
    unfolding d by blast
  show ?thesis using h1 h2 h2' h3 h3' a b c by blast
qed

text \<open>
  A response with an intent outside the four classes and a confidence outside [0, 1] is
  returned as it is, not replaced by the default.
\<close>

theorem interpreter_defaults_counterexample:
  \<open>interpreter_node demo_lib ''{"intent": "banana", "confidence": 7}''
     = Inr \<lparr>intent_type = JStr ''banana'', confidence = Finite 7, entities = JArr [], inferred_url = JNull\<rparr>
   \<and> \<lparr>intent_type = JStr ''banana'', confidence = Finite 7, entities = JArr [], inferred_url = JNull\<rparr> \<noteq> default_intent\<close>
proof -
  have s3: \<open>strip_code_fence ''{"intent": "banana", "confidence": 7}'' = ''{"intent": "banana", "confidence": 7}''\<close>
    by code_simp
  show ?thesis
    by (simp add: interpreter_node_def parse_intent_def s3 demo_lib_def dict_get_def default_intent_def)
qed

lemma synthesis_node_result:
  assumes "synthesis_node lib client hist st = Inr (st1, hist1)"
  shows "critique_count st1 = critique_count st \<and> is_approved st1 = is_approved st
       \<and> critique_feedback st1 = critique_feedback st
       \<and> (\<exists>rq. hist1 = hist @ [rq] \<and> \<not> is_critic_request rq)"
  using assms by (auto simp: synthesis_node_def Let_def split: sum.splits)

lemma critic_node_count:
  assumes "critic_node lib client hist st = Inr (st1, hist1)"
  shows "critique_count st1 = Some (get_or 0 (critique_count st) + 1)"
  using assms by (auto simp: critic_node_def Let_def split: sum.splits if_splits)

lemma answer_actions_answer_node: "answer_actions (answer_node st) = answer_actions st"
  by (simp add: answer_actions_def answer_node_def)

lemma count_list_Cons_same: "count_list (x # xs) x = Suc (count_list xs x)"
  by simp

lemma run_graph_trace:
  "run_graph lib client nd (st, hist, tr) = Inr (st', hist', tr') \<Longrightarrow>
   \<exists>d. tr' = tr @ d \<and> d \<noteq> [] \<and> last d = Answer
     \<and> get_or 0 (critique_count st') = get_or 0 (critique_count st) + int (count_list d Critic)
     \<and> (nd = Answer \<or> nd = Ingest_Response \<longrightarrow> count_list d Critic = 0 \<and> count_list d Revise = 0)
     \<and> (nd = Synthesis \<or> nd = Critic \<longrightarrow> count_list d Revise + 1 = count_list d Critic)
     \<and> (nd = Revise \<longrightarrow> count_list d Revise = count_list d Critic)
     \<and> final_response st' = Some (get_or [] (draft_response st'))
     \<and> actions_taken st' = Some (answer_actions st')"
proof (induction lib client nd "(st, hist, tr)" arbitrary: st hist tr rule: run_graph.induct)
  case (1 lib client st hist tr)
  from "1.prems" have r: "run_graph lib client Answer (ingest_then_synthesize st, hist, tr @ [Ingest_Response])
      = Inr (st', hist', tr')" by simp
  then have s: "st' = answer_node (ingest_then_synthesize st)" "tr' = tr @ [Ingest_Response, Answer]"
    by simp_all
  show ?case
    by (rule exI [of _ "[Ingest_Response, Answer]"])
       (simp add: s answer_actions_answer_node, simp add: answer_node_def ingest_then_synthesize_def)
next
  case (2 lib client st hist tr)
  from "2.prems" obtain st1 hist1 where
    n: "synthesis_node lib client hist st = Inr (st1, hist1)"
    and r: "run_graph lib client Critic (st1, hist1, tr @ [Synthesis]) = Inr (st', hist', tr')"
    by (auto split: sum.splits)
  from "2.hyps" [OF n refl r] obtain d where
    d: "tr' = (tr @ [Synthesis]) @ d" "d \<noteq> []" "last d = Answer"
      "get_or 0 (critique_count st') = get_or 0 (critique_count st1) + int (count_list d Critic)"
      "count_list d Revise + 1 = count_list d Critic"
      "final_response st' = Some (get_or [] (draft_response st'))"
      "actions_taken st' = Some (answer_actions st')"
    by auto
  have c: "critique_count st1 = critique_count st" using synthesis_node_result [OF n] by simp
  show ?case
    by (rule exI [of _ "Synthesis # d"]) (use d c in simp)
next
  case (3 lib client st hist tr)
  from "3.prems" obtain st1 hist1 where
    n: "critic_node lib client hist st = Inr (st1, hist1)"
    and r: "run_graph lib client (route_after_critic st1) (st1, hist1, tr @ [Critic]) = Inr (st', hist', tr')"
    by (auto split: sum.splits)
  from "3.hyps" [OF n refl r] obtain d where
    d: "tr' = (tr @ [Critic]) @ d" "d \<noteq> []" "last d = Answer"
      "get_or 0 (critique_count st') = get_or 0 (critique_count st1) + int (count_list d Critic)"
      "route_after_critic st1 = Answer \<or> route_after_critic st1 = Ingest_Response
         \<longrightarrow> count_list d Critic = 0 \<and> count_list d Revise = 0"
      "route_after_critic st1 = Revise \<longrightarrow> count_list d Revise = count_list d Critic"
      "final_response st' = Some (get_or [] (draft_response st'))"
      "actions_taken st' = Some (answer_actions st')"
    by auto
  have c: "get_or 0 (critique_count st1) = get_or 0 (critique_count st) + 1"
    using critic_node_count [OF n] by (simp add: get_or_def)
  have rt: "route_after_critic st1 = Answer \<or> route_after_critic st1 = Revise"
    by (simp add: route_after_critic_def)
  show ?case
    by (rule exI [of _ "Critic # d"]) (use d c rt in auto)
next
  case (4 lib client st hist tr)
  from "4.prems" have r: "run_graph lib client Synthesis (revise_node st, hist, tr @ [Revise])
      = Inr (st', hist', tr')" by simp
  from "4.hyps" [OF r] obtain d where
    d: "tr' = (tr @ [Revise]) @ d" "d \<noteq> []" "last d = Answer"
      "get_or 0 (critique_count st') = get_or 0 (critique_count (revise_node st)) + int (count_list d Critic)"
      "count_list d Revise + 1 = count_list d Critic"
      "final_response st' = Some (get_or [] (draft_response st'))"
      "actions_taken st' = Some (answer_actions st')"
    by auto
  have c: "critique_count (revise_node st) = critique_count st" by (simp add: revise_node_def)
  show ?case
    by (rule exI [of _ "Revise # d"]) (use d c in simp)
next
  case (5 lib client st hist tr)
  then have s: "st' = answer_node st" "tr' = tr @ [Answer]" by simp_all
  show ?case
    by (rule exI [of _ "[Answer]"])
       (simp add: s answer_actions_answer_node, simp add: answer_node_def)
qed

lemma rejecting_run:
  "run_graph demo_lib rejecting_client Synthesis (fresh_state, [], [])
     = Inr (rejected_state, rejected_history,
            [Synthesis, Critic, Revise, Synthesis, Critic, Revise, Synthesis, Critic, Answer])"
  by code_simp

lemma synthesis_step:
  assumes "\<forall>hist m s r. \<exists>resp. client hist (Synthesis_Request m s r) = Inr resp"
  shows "\<exists>st1 rq. synthesis_node lib client hist st = Inr (st1, hist @ [rq])
           \<and> \<not> is_critic_request rq \<and> critique_count st1 = critique_count st"
proof -
  let ?rq = "Synthesis_Request (get_or [] (message st))
     (if get_or [] (research_summary st) \<noteq> [] then get_or [] (research_summary st)
      else ''No research results available.'')
     (if map (\<lambda>r. take 500 (rr_content r))
            (filter (\<lambda>r. startswith ''rag:'' (rr_source r) \<and> rr_content r \<noteq> [])
               (get_or [] (research_results st))) \<noteq> []
      then join_with (CHR 0x0A) (map (\<lambda>r. take 500 (rr_content r))
            (filter (\<lambda>r. startswith ''rag:'' (rr_source r) \<and> rr_content r \<noteq> [])
               (get_or [] (research_results st))))
      else ''No stored context available.'')"
  obtain resp where r: "client hist ?rq = Inr resp" using assms by blast
  have "synthesis_node lib client hist st
      = Inr (st\<lparr>draft_response := Some resp,
                sources := Some (extract_sources lib (get_or [] (research_results st)))\<rparr>, hist @ [?rq])"
    using r by (simp add: synthesis_node_def Let_def)
  then show ?thesis by (intro exI [of _ "st\<lparr>draft_response := Some resp,
                sources := Some (extract_sources lib (get_or [] (research_results st)))\<rparr>"] exI [of _ ?rq]) simp
qed

lemma critic_step:
  assumes "\<forall>hist m d s. \<exists>resp a score fb. client hist (Critic_Request m d s) = Inr resp
              \<and> critic_verdict lib resp = Inr (a, score, fb) \<and> \<not> truthy a"
    and "get_or 0 (critique_count st) + 1 < 3"
  shows "\<exists>st1 rq. critic_node lib client hist st = Inr (st1, hist @ [rq])
           \<and> is_critic_request rq
           \<and> critique_count st1 = Some (get_or 0 (critique_count st) + 1)
           \<and> route_after_critic st1 = Revise"
proof -
  let ?rq = "Critic_Request (get_or [] (message st)) (get_or [] (draft_response st))
     (if get_or [] (research_summary st) \<noteq> [] then get_or [] (research_summary st)
      else ''No research available.'')"
  obtain resp a score fb where r: "client hist ?rq = Inr resp"
    and v: "critic_verdict lib resp = Inr (a, score, fb)" and n: "\<not> truthy a"
    using assms(1) by blast
  let ?st1 = "st\<lparr>is_approved := Some a, critique_count := Some (get_or 0 (critique_count st) + 1),
                 critique_score := Some score, critique_feedback := Some fb\<rparr>"
  have "critic_node lib client hist st = Inr (?st1, hist @ [?rq])"
    using r v assms(2) by (simp add: critic_node_def Let_def)
  moreover have "route_after_critic ?st1 = Revise"
    using n assms(2) by (simp add: route_after_critic_def get_or_def)
  ultimately show ?thesis
    by (intro exI [of _ ?st1] exI [of _ ?rq]) simp
qed

lemma critic_auto:
  assumes "3 \<le> get_or 0 (critique_count st) + 1"
  shows "critic_node lib client hist st =
           Inr (st\<lparr>is_approved := Some (JBool True),
                   critique_count := Some (get_or 0 (critique_count st) + 1),
                   critique_feedback := Some ''Auto-approved after maximum critique attempts.''\<rparr>, hist)"
  using assms by (simp add: critic_node_def Let_def)

lemma revise_round:
  assumes synth: "\<forall>hist m s r. \<exists>resp. client hist (Synthesis_Request m s r) = Inr resp"
    and crit: "\<forall>hist m d s. \<exists>resp a score fb. client hist (Critic_Request m d s) = Inr resp
              \<and> critic_verdict lib resp = Inr (a, score, fb) \<and> \<not> truthy a"
    and c: "get_or 0 (critique_count st) + 1 < 3"
  shows "\<exists>st2 rq1 rq2.
           run_graph lib client Synthesis (st, hist, tr)
             = run_graph lib client Synthesis (st2, hist @ [rq1, rq2], tr @ [Synthesis, Critic, Revise])
           \<and> \<not> is_critic_request rq1 \<and> is_critic_request rq2
           \<and> critique_count st2 = Some (get_or 0 (critique_count st) + 1)"
proof -
  obtain st1 rq1 where s: "synthesis_node lib client hist st = Inr (st1, hist @ [rq1])"
    "\<not> is_critic_request rq1" "critique_count st1 = critique_count st"
    using synthesis_step [OF synth] by blast
  have c1: "get_or 0 (critique_count st1) + 1 < 3" using c s(3) by simp
  obtain st2 rq2 where k: "critic_node lib client (hist @ [rq1]) st1 = Inr (st2, (hist @ [rq1]) @ [rq2])"
    "is_critic_request rq2" "critique_count st2 = Some (get_or 0 (critique_count st1) + 1)"
    "route_after_critic st2 = Revise"
    using critic_step [OF crit c1] by blast
  have "run_graph lib client Synthesis (st, hist, tr)
      = run_graph lib client Synthesis (revise_node st2, hist @ [rq1, rq2], tr @ [Synthesis, Critic, Revise])"
    by (simp add: s(1) k(1) k(4))
  moreover have "critique_count (revise_node st2) = Some (get_or 0 (critique_count st) + 1)"
    using k(3) s(3) by (simp add: revise_node_def)
  ultimately show ?thesis using s(2) k(2) by blast
qed

lemma final_round:
  assumes synth: "\<forall>hist m s r. \<exists>resp. client hist (Synthesis_Request m s r) = Inr resp"
    and c: "critique_count st = Some 2"
  shows "\<exists>st' rq.
           run_graph lib client Synthesis (st, hist, tr)
             = Inr (st', hist @ [rq], tr @ [Synthesis, Critic, Answer])
           \<and> \<not> is_critic_request rq
           \<and> is_approved st' = Some (JBool True)
           \<and> critique_feedback st' = Some ''Auto-approved after maximum critique attempts.''
           \<and> critique_count st' = Some 3"
proof -
  obtain st1 rq where s: "synthesis_node lib client hist st = Inr (st1, hist @ [rq])"
    "\<not> is_critic_request rq" "critique_count st1 = critique_count st"
    using synthesis_step [OF synth] by blast
  have c1: "3 \<le> get_or 0 (critique_count st1) + 1" using c s(3) by (simp add: get_or_def)
  let ?st2 = "st1\<lparr>is_approved := Some (JBool True),
                   critique_count := Some (get_or 0 (critique_count st1) + 1),
                   critique_feedback := Some ''Auto-approved after maximum critique attempts.''\<rparr>"
  have k: "critic_node lib client (hist @ [rq]) st1 = Inr (?st2, hist @ [rq])"
    by (rule critic_auto [OF c1])
  have rt: "route_after_critic ?st2 = Answer" by (simp add: route_after_critic_def get_or_def)
  have "run_graph lib client Synthesis (st, hist, tr)
      = Inr (answer_node ?st2, hist @ [rq], tr @ [Synthesis, Critic, Answer])"
    by (simp add: s(1) k rt)
  moreover have "is_approved (answer_node ?st2) = Some (JBool True)
      \<and> critique_feedback (answer_node ?st2) = Some ''Auto-approved after maximum critique attempts.''
      \<and> critique_count (answer_node ?st2) = Some 3"
    using c s(3) by (simp add: answer_node_def get_or_def)
  ultimately show ?thesis using s(2) by blast
qed

lemma rejecting_client_verdict:
  "\<exists>resp a score fb. rejecting_client hist (Critic_Request m d s) = Inr resp
      \<and> critic_verdict demo_lib resp = Inr (a, score, fb) \<and> \<not> truthy a"
proof -
  have \<open>critic_verdict demo_lib (''```json'' @ [CHR 0x0A] @ ''{"is_approved": false, "score": 0, "issues": ["vague"]}'' @ [CHR 0x0A] @ ''```'')
      = Inr (JBool False, Finite 0, ''Issues: vague'' @ [CHR 0x0A])\<close>
    by code_simp
  then show ?thesis by (simp add: rejecting_client_def)
qed

text \<open>
  Claim C4, as amended. Let the synthesis model answer every request and let the critic
  model answer every request with a response that the critic node parses without an
  exception to a verdict of non-approval. A request that enters synthesis with no
  critique counted yet reaches \<open>answer\<close> after exactly three executions of the critic
  node, two of them followed by a revision; the critic model is asked exactly twice,
  the third execution sets the approval without asking it, and the feedback recorded is
  the fixed text of the automatic approval.
\<close>

theorem critique_bound:
  assumes "critique_count st = None"
    and synth: "\<forall>hist m s r. \<exists>resp. client hist (Synthesis_Request m s r) = Inr resp"
    and crit: "\<forall>hist m d s. \<exists>resp a score fb. client hist (Critic_Request m d s) = Inr resp
              \<and> critic_verdict lib resp = Inr (a, score, fb) \<and> \<not> truthy a"
  shows "\<exists>st' new.
           run_graph lib client Synthesis (st, hist, tr)
             = Inr (st', hist @ new,
                    tr @ [Synthesis, Critic, Revise, Synthesis, Critic, Revise, Synthesis, Critic, Answer])
           \<and> length (filter is_critic_request new) = 2
           \<and> is_approved st' = Some (JBool True)
           \<and> critique_feedback st' = Some ''Auto-approved after maximum critique attempts.''
           \<and> critique_count st' = Some 3"
proof -
  have c0: "get_or 0 (critique_count st) + 1 < 3" using assms(1) by (simp add: get_or_def)
  obtain st2 rq1 rq2 where a:
    "run_graph lib client Synthesis (st, hist, tr)
       = run_graph lib client Synthesis (st2, hist @ [rq1, rq2], tr @ [Synthesis, Critic, Revise])"
    "\<not> is_critic_request rq1" "is_critic_request rq2"
    "critique_count st2 = Some (get_or 0 (critique_count st) + 1)"
    using revise_round [OF synth crit c0] by blast
  have c2: "get_or 0 (critique_count st2) + 1 < 3" using a(4) assms(1) by (simp add: get_or_def)
  obtain st3 rq3 rq4 where b:
    "run_graph lib client Synthesis (st2, hist @ [rq1, rq2], tr @ [Synthesis, Critic, Revise])
       = run_graph lib client Synthesis (st3, (hist @ [rq1, rq2]) @ [rq3, rq4],
           (tr @ [Synthesis, Critic, Revise]) @ [Synthesis, Critic, Revise])"
    "\<not> is_critic_request rq3" "is_critic_request rq4"
    "critique_count st3 = Some (get_or 0 (critique_count st2) + 1)"
    using revise_round [OF synth crit c2] by blast
  have c3: "critique_count st3 = Some 2" using b(4) a(4) assms(1) by (simp add: get_or_def)
  obtain st' rq5 where f:
    "run_graph lib client Synthesis (st3, (hist @ [rq1, rq2]) @ [rq3, rq4],
           (tr @ [Synthesis, Critic, Revise]) @ [Synthesis, Critic, Revise])
       = Inr (st', ((hist @ [rq1, rq2]) @ [rq3, rq4]) @ [rq5],
              ((tr @ [Synthesis, Critic, Revise]) @ [Synthesis, Critic, Revise]) @ [Synthesis, Critic, Answer])"
    "\<not> is_critic_request rq5"
    "is_approved st' = Some (JBool True)"
    "critique_feedback st' = Some ''Auto-approved after maximum critique attempts.''"
    "critique_count st' = Some 3"
    using final_round [OF synth c3] by blast
  have "run_graph lib client Synthesis (st, hist, tr)
      = Inr (st', hist @ [rq1, rq2, rq3, rq4, rq5],
             tr @ [Synthesis, Critic, Revise, Synthesis, Critic, Revise, Synthesis, Critic, Answer])"
    using a(1) b(1) f(1) by simp
  moreover have "length (filter is_critic_request [rq1, rq2, rq3, rq4, rq5]) = 2"
    using a(2,3) b(2,3) f(2) by simp
  ultimately show ?thesis using f(3,4,5) by blast
qed

theorem critique_bound_witness:
  "critique_count fresh_state = None
   \<and> (\<forall>hist m s r. \<exists>resp. rejecting_client hist (Synthesis_Request m s r) = Inr resp)
   \<and> (\<forall>hist m d s. \<exists>resp a score fb. rejecting_client hist (Critic_Request m d s) = Inr resp
              \<and> critic_verdict demo_lib resp = Inr (a, score, fb) \<and> \<not> truthy a)
   \<and> (\<exists>st' new.
         run_graph demo_lib rejecting_client Synthesis (fresh_state, [], [])
           = Inr (st', new, [Synthesis, Critic, Revise, Synthesis, Critic, Revise, Synthesis, Critic, Answer])
         \<and> length (filter is_critic_request new) = 2
         \<and> is_approved st' = Some (JBool True)
         \<and> critique_feedback st' = Some ''Auto-approved after maximum critique attempts.''
         \<and> critique_count st' = Some 3)"
proof -
  have h1: "critique_count fresh_state = None" by (simp add: fresh_state_def)
  have h2: "\<forall>hist m s r. \<exists>resp. rejecting_client hist (Synthesis_Request m s r) = Inr resp"
    by (simp add: rejecting_client_def)
  have h3: "\<forall>hist m d s. \<exists>resp a score fb. rejecting_client hist (Critic_Request m d s) = Inr resp
              \<and> critic_verdict demo_lib resp = Inr (a, score, fb) \<and> \<not> truthy a"
    using rejecting_client_verdict by blast
  show ?thesis
    using critique_bound [OF h1 h2 h3, of "[]" "[]"] h1 h2 h3 by simp
qed

text \<open>
  A critic model that reports non-approval with a score that does not read as a number:
  the conversion of the score raises \<open>ValueError\<close>, the handler of the node takes the
  draft as approved, and \<open>answer\<close> is reached after one execution of the critic node
  with an empty feedback.
\<close>

theorem critique_bound_counterexample:
  \<open>json_loads demo_lib (strip_code_fence ''{"is_approved": false, "score": "high"}'')
     = Inr (JObj [(''is_approved'', JBool False), (''score'', JStr ''high'')])
   \<and> \<not> truthy (dict_get [(''is_approved'', JBool False), (''score'', JStr ''high'')] ''is_approved'' (JBool True))
   \<and> critic_verdict demo_lib ''{"is_approved": false, "score": "high"}'' = Inr (JBool True, Finite (7/10), [])
   \<and> critique_count fresh_state = None
   \<and> run_graph demo_lib unscored_client Synthesis (fresh_state, [], [])
       = Inr (unscored_state, unscored_history, [Synthesis, Critic, Answer])
   \<and> count_list [Synthesis, Critic, Answer] Critic = 1
   \<and> critique_feedback unscored_state = Some []\<close>
  by code_simp

text \<open>
  Claim C9. Every run that enters the graph behind research (at \<open>synthesis\<close>) or behind
  ingestion (at \<open>ingest_response\<close>) with no critique counted yet, and that does not end
  with an exception, ends in \<open>answer\<close>; the final response is the draft response, and
  the list of actions holds \<open>crawl\<close> exactly when the ingestion status is success,
  \<open>research\<close> exactly when the list of research results is not empty, \<open>revise\<close>
  exactly when the revise node ran, which is exactly when the critic ran more than once,
  and \<open>synthesize\<close> as its last element.
\<close>

theorem answer_assembles:
  assumes "run_graph lib client start (st, hist, []) = Inr (st', hist', tr)"
    and "start = Synthesis \<or> start = Ingest_Response"
    and "critique_count st = None"
  shows "last tr = Answer
     \<and> final_response st' = Some (get_or [] (draft_response st'))
     \<and> actions_taken st' = Some (answer_actions st')
     \<and> (''crawl'' \<in> set (answer_actions st')) = (ingestion_status st' = Some ''success'')
     \<and> (''research'' \<in> set (answer_actions st')) = (get_or [] (research_results st') \<noteq> [])
     \<and> (''revise'' \<in> set (answer_actions st')) = (Revise \<in> set tr)
     \<and> (''revise'' \<in> set (answer_actions st')) = (1 < count_list tr Critic)
     \<and> last (answer_actions st') = ''synthesize''"
proof -
  from run_graph_trace [OF assms(1)] obtain d where
    d: "tr = d" "d \<noteq> []" "last d = Answer"
      "get_or 0 (critique_count st') = get_or 0 (critique_count st) + int (count_list d Critic)"
      "start = Answer \<or> start = Ingest_Response \<longrightarrow> count_list d Critic = 0 \<and> count_list d Revise = 0"
      "start = Synthesis \<or> start = Critic \<longrightarrow> count_list d Revise + 1 = count_list d Critic"
      "final_response st' = Some (get_or [] (draft_response st'))"
      "actions_taken st' = Some (answer_actions st')"
    by auto
  have c: "get_or 0 (critique_count st') = int (count_list tr Critic)"
    using d(1,4) assms(3) by (simp add: get_or_def)
  have rv: "(Revise \<in> set tr) = (0 < count_list tr Revise)"
    using count_list_0_iff [of tr Revise] by auto
  have k: "(1 < count_list tr Critic) = (0 < count_list tr Revise)"
    using d(1,5,6) assms(2) by auto
  have a: "(''revise'' \<in> set (answer_actions st')) = (1 < count_list tr Critic)"
    using c by (simp add: answer_actions_def)
  show ?thesis
    using d(1,3,7,8) a k rv by (simp add: answer_actions_def)
qed

theorem answer_assembles_witness:
  "run_graph demo_lib rejecting_client Synthesis (fresh_state, [], [])
     = Inr (rejected_state, rejected_history,
            [Synthesis, Critic, Revise, Synthesis, Critic, Revise, Synthesis, Critic, Answer])
   \<and> critique_count fresh_state = None
   \<and> final_response rejected_state = Some ''A draft.''
   \<and> draft_response rejected_state = Some ''A draft.''
   \<and> actions_taken rejected_state = Some [''revise'', ''synthesize'']
   \<and> ''crawl'' \<notin> set (answer_actions rejected_state)
   \<and> ingestion_status rejected_state \<noteq> Some ''success''
   \<and> ''revise'' \<in> set (answer_actions rejected_state)
   \<and> Revise \<in> set [Synthesis, Critic, Revise, Synthesis, Critic, Revise, Synthesis, Critic, Answer]"
proof -
  have h2: "Synthesis = Synthesis \<or> Synthesis = Ingest_Response" by simp
  have h3: "critique_count fresh_state = None" by (simp add: fresh_state_def)
  note t = answer_assembles [OF rejecting_run h2 h3]
  have d: "draft_response rejected_state = Some ''A draft.''" by (simp add: rejected_state_def)
  have i: "ingestion_status rejected_state \<noteq> Some ''success''" by (simp add: rejected_state_def)
  have a: "actions_taken rejected_state = Some [''revise'', ''synthesize'']" by (simp add: rejected_state_def)
  have f: "final_response rejected_state = Some ''A draft.''" using t d by (simp add: get_or_def)
  have c: "''crawl'' \<notin> set (answer_actions rejected_state)" using t i by blast
  have r: "''revise'' \<in> set (answer_actions rejected_state)" using t by simp
  show ?thesis using rejecting_run h3 d i a f c r by simp
qed

end
